theory Spec2Isabelle
  imports Complex_Main "HOL-Library.Word"
begin

section \<open>The Operation store of pkg/scd/store/cockroach/operations.go\<close>

text \<open>
  The Go file talks to a SQL store through the handle \<open>s.q\<close>. The embedding makes the
  store explicit: three tables as lists of rows, the transaction's timestamp, and a script
  that says which of the coming statements the backing store answers with an error. Every
  SQL text of the file is a function on the tables, named as the Go variable that holds
  it; every Go function threads the handle and returns \<open>Inl\<close> of the error or
  \<open>Inr\<close> of its result.
\<close>

subsection \<open>Data\<close>

type_synonym ID = string
type_synonym Owner = string
type_synonym Time = int

text \<open>\<open>s2.CellID\<close> is a \<open>uint64\<close>; \<open>int64(cell)\<close> and \<open>s2.CellID(uint64(cell))\<close>
  reinterpret the same 64 bits, so the column \<open>cell_id\<close> holds the same word.\<close>

type_synonym CellID = "64 word"

text \<open>\<open>scdmodels.Version\<close>: the integer of the column \<open>version\<close>.\<close>

type_synonym Version = int

text \<open>\<open>scdmodels.OVN\<close> is a string token. \<open>NoOVN\<close> is the empty string of an Operation
  that was not read from the store; \<open>Token t salt\<close> is the token derived from a
  timestamp and an ID.\<close>

datatype OVN = NoOVN | Token Time ID

text \<open>\<open>scdmodels.OperationState\<close> is a string; the file names two of its values.\<close>

datatype OperationState =
    OperationStateAccepted
  | OperationStateActivated
  | OperationStateOther string

datatype Error =
    ErrNoRows
  | NotFound
  | AlreadyExists
  | VersionMismatch
  | PermissionDenied
  | BadRequest
  | ErrMissingOVNs ID
  | UnexpectedRowCount nat
  | StoreError

text \<open>\<open>scdmodels.Operation\<close>, with the fields the file reads and writes. Altitudes are
  \<open>*float32\<close>, times \<open>*time.Time\<close>: \<open>None\<close> is the nil pointer. Altitudes are
  modelled by the reals they denote: the file only passes them to the store, which
  only compares them.\<close>

record Operation =
  ID :: ID
  Owner :: Owner
  Version :: Version
  USSBaseURL :: string
  AltitudeLower :: "real option"
  AltitudeUpper :: "real option"
  StartTime :: "Time option"
  EndTime :: "Time option"
  SubscriptionID :: ID
  OVN :: OVN
  Cells :: "CellID list"
  State :: OperationState

text \<open>A row of \<open>scd_operations\<close>: the ten columns of \<open>operationFieldsWithIndices\<close>.\<close>

record OperationRow =
  o_id :: ID
  o_owner :: Owner
  o_version :: Version
  o_url :: string
  o_altitude_lower :: "real option"
  o_altitude_upper :: "real option"
  o_starts_at :: "Time option"
  o_ends_at :: "Time option"
  o_subscription_id :: ID
  o_updated_at :: Time

text \<open>A row of \<open>scd_cells_operations\<close>, keyed by \<open>(cell_id, operation_id)\<close>.\<close>

record CellRow =
  cell_id :: CellID
  cell_level :: int
  operation_id :: ID

text \<open>A row of \<open>scd_subscriptions\<close>: the columns the file's statements name (\<open>id\<close>,
  \<open>owner\<close>, \<open>implicit\<close>), and the cells of the Subscription's area, which the
  notification query reads.\<close>

record SubscriptionRow =
  s_id :: ID
  s_owner :: Owner
  s_implicit :: bool
  s_cells :: "CellID list"

record Tables =
  scd_operations :: "OperationRow list"
  scd_cells_operations :: "CellRow list"
  scd_subscriptions :: "SubscriptionRow list"

text \<open>The handle \<open>dsssql.Queryable\<close>. \<open>transaction_timestamp\<close> is what the SQL function
  of that name returns. \<open>outcomes\<close> scripts the backing store: each statement sent
  takes the head off; \<open>True\<close> means the store answers that statement with an error
  (connection, constraint, serialization) and applies nothing of it. An empty script
  means every statement is answered.\<close>

record Queryable =
  tables :: Tables
  transaction_timestamp :: Time
  outcomes :: "bool list"

text \<open>\<open>dssmodels.Volume3D\<close> and \<open>dssmodels.Volume4D\<close>. \<open>Footprint\<close> is the
  \<open>Geometry\<close> interface, \<open>None\<close> when nil; the value held is what its only method
  \<open>CalculateCovering()\<close> returns.\<close>

record Volume3D =
  AltitudeHi :: "real option"
  AltitudeLo :: "real option"
  Footprint :: "(Error + CellID list) option"

record Volume4D =
  v_StartTime :: "Time option"
  v_EndTime :: "Time option"
  SpatialVolume :: "Volume3D option"

subsection \<open>Collaborators of the file that are declared elsewhere\<close>

text \<open>Modelled from the spec: \<open>Version.Empty\<close> and \<open>Version.Matches\<close> (package
  scdmodels, not part of the file). The spec has Version "opaque to callers except for
  equality/emptiness checks", a new Operation "created with Version empty" and the
  first stored Version 1: empty is "no positive version", matching is equality.\<close>

definition Version_Empty :: "Version \<Rightarrow> bool" where
  "Version_Empty v = (v \<le> 0)"

definition Version_Matches :: "Version \<Rightarrow> Version \<Rightarrow> bool" where
  "Version_Matches v w = (v = w)"

text \<open>Modelled from the spec: \<open>scdmodels.NewOVNFromTime\<close> (not part of the file). The spec
  has the token "a deterministic function of (last-write timestamp, ID)", "stable" and
  "collision-resistant across different IDs/timestamps": the model is the free token of
  the pair, so two tokens are equal exactly when timestamp and ID are.\<close>

definition NewOVNFromTime :: "Time \<Rightarrow> ID \<Rightarrow> OVN" where
  "NewOVNFromTime t salt = Token t salt"

text \<open>Modelled from the spec: \<open>Operation.ValidateTimeRange\<close> (package scdmodels, not part
  of the file; the file's comment has it "validate and perhaps correct StartTime and
  EndTime"). The spec has it "reject an inverted start/end" with BadRequest. The result
  is the Operation to go on with.\<close>

definition ValidateTimeRange :: "Operation \<Rightarrow> Error + Operation" where
  "ValidateTimeRange operation =
     (case (StartTime operation, EndTime operation) of
        (Some st, Some en) \<Rightarrow> if en < st then Inl BadRequest else Inr operation
      | _ \<Rightarrow> Inr operation)"

text \<open>\<open>CellID.Level()\<close> of the library golang/geo/s2: \<open>MaxLevel\<close> (30) minus half the
  index of the lowest set bit of the id.\<close>

fun lowest_set_bit :: "nat \<Rightarrow> nat" where
  "lowest_set_bit n = (if n = 0 \<or> odd n then 0 else Suc (lowest_set_bit (n div 2)))"

declare lowest_set_bit.simps [simp del]

definition Level :: "CellID \<Rightarrow> int" where
  "Level cell = 30 - int (lowest_set_bit (unat cell) div 2)"

subsection \<open>The store: statements\<close>

text \<open>A statement maps the transaction timestamp and the tables to its rows and the new
  tables.\<close>

type_synonym 'r Statement = "Time \<Rightarrow> Tables \<Rightarrow> 'r \<times> Tables"

definition next_fails :: "Queryable \<Rightarrow> bool" where
  "next_fails q = (case outcomes q of [] \<Rightarrow> False | b # _ \<Rightarrow> b)"

text \<open>\<open>q.QueryContext\<close> with the scan of its rows, and \<open>q.ExecContext\<close>.\<close>

definition QueryContext :: "Queryable \<Rightarrow> 'r Statement \<Rightarrow> (Error + 'r) \<times> Queryable" where
  "QueryContext q query =
     (if next_fails q then (Inl StoreError, q\<lparr>outcomes := tl (outcomes q)\<rparr>)
      else (case query (transaction_timestamp q) (tables q) of
              (rows, t) \<Rightarrow> (Inr rows, q\<lparr>tables := t, outcomes := tl (outcomes q)\<rparr>)))"

definition ExecContext :: "Queryable \<Rightarrow> unit Statement \<Rightarrow> (Error + unit) \<times> Queryable" where
  "ExecContext q query = QueryContext q query"

text \<open>SQL comparison and \<open>COALESCE\<close>: a comparison with NULL is NULL.\<close>

definition sql_ge :: "'a::linorder option \<Rightarrow> 'a option \<Rightarrow> bool option" where
  "sql_ge a b = (case (a, b) of (Some x, Some y) \<Rightarrow> Some (x \<ge> y) | _ \<Rightarrow> None)"

definition sql_le :: "'a::linorder option \<Rightarrow> 'a option \<Rightarrow> bool option" where
  "sql_le a b = (case (a, b) of (Some x, Some y) \<Rightarrow> Some (x \<le> y) | _ \<Rightarrow> None)"

definition COALESCE :: "'a option \<Rightarrow> 'a \<Rightarrow> 'a" where
  "COALESCE a d = (case a of None \<Rightarrow> d | Some x \<Rightarrow> x)"

text \<open>\<open>UPSERT INTO\<close> a table with primary key \<open>key\<close>: the row with the key is
  replaced where it stands, a row with a new key is added.\<close>

definition upsert_row :: "('r \<Rightarrow> 'k) \<Rightarrow> 'r \<Rightarrow> 'r list \<Rightarrow> 'r list" where
  "upsert_row key r t =
     (if list_ex (\<lambda>x. key x = key r) t
      then map (\<lambda>x. if key x = key r then r else x) t
      else t @ [r])"

text \<open>The query of \<open>fetchOperationByID\<close>.\<close>

definition fetchOperationByID_query :: "ID \<Rightarrow> OperationRow list Statement" where
  "fetchOperationByID_query a1 now t = (filter (\<lambda>r. o_id r = a1) (scd_operations t), t)"

text \<open>\<open>upsertOperationsQuery\<close>. \<open>v\<close> holds the version of the row with the id;
  \<open>scd_operations\<close> is keyed by id, so \<open>v\<close> has at most one row, and
  \<open>(SELECT version from v)\<close> is NULL when it has none.\<close>

definition upsertOperationsQuery ::
  "ID \<Rightarrow> Owner \<Rightarrow> string \<Rightarrow> real option \<Rightarrow> real option \<Rightarrow> Time option \<Rightarrow> Time option \<Rightarrow> ID
     \<Rightarrow> OperationRow list Statement" where
  "upsertOperationsQuery a1 a2 a3 a4 a5 a6 a7 a8 now t =
     (let v = map o_version (filter (\<lambda>r. o_id r = a1) (scd_operations t));
          row = \<lparr>o_id = a1, o_owner = a2,
                 o_version = COALESCE (case v of [] \<Rightarrow> None | x # _ \<Rightarrow> Some x) 0 + 1,
                 o_url = a3, o_altitude_lower = a4, o_altitude_upper = a5,
                 o_starts_at = a6, o_ends_at = a7, o_subscription_id = a8,
                 o_updated_at = now\<rparr>
      in ([row], t\<lparr>scd_operations := upsert_row o_id row (scd_operations t)\<rparr>))"

text \<open>\<open>upsertCellsForOperationQuery\<close>.\<close>

definition upsertCellsForOperationQuery :: "CellID \<Rightarrow> int \<Rightarrow> ID \<Rightarrow> unit Statement" where
  "upsertCellsForOperationQuery a1 a2 a3 now t =
     ((), t\<lparr>scd_cells_operations :=
              upsert_row (\<lambda>r. (cell_id r, operation_id r))
                \<lparr>cell_id = a1, cell_level = a2, operation_id = a3\<rparr>
                (scd_cells_operations t)\<rparr>)"

text \<open>\<open>deleteLeftOverCellsForOperationQuery\<close>: \<open>cell_id != ALL($1)\<close> holds when the
  cell differs from every element of the array.\<close>

definition deleteLeftOverCellsForOperationQuery :: "CellID list \<Rightarrow> ID \<Rightarrow> unit Statement" where
  "deleteLeftOverCellsForOperationQuery a1 a2 now t =
     ((), t\<lparr>scd_cells_operations :=
              filter (\<lambda>r. \<not> (list_all (\<lambda>c. cell_id r \<noteq> c) a1 \<and> operation_id r = a2))
                (scd_cells_operations t)\<rparr>)"

text \<open>The query of \<open>populateOperationCells\<close>.\<close>

definition populateOperationCells_query :: "ID \<Rightarrow> CellID list Statement" where
  "populateOperationCells_query a1 now t =
     (map cell_id (filter (\<lambda>r. operation_id r = a1) (scd_cells_operations t)), t)"

text \<open>Modelled from the spec: the declaration of the table \<open>scd_cells_operations\<close> is
  not part of the file. The spec has the Cell Index "at all times equal the set on the
  latest Operation row", the delete path span "the Operation row write/delete, the Cell
  Index replace/delete", and "after a delete, zero rows remain for that ID": the rows
  of the Cell Index that reference a deleted Operation row go with it.\<close>

definition delete_operations :: "(OperationRow \<Rightarrow> bool) \<Rightarrow> Tables \<Rightarrow> Tables" where
  "delete_operations P t =
     (let gone = map o_id (filter P (scd_operations t))
      in t\<lparr>scd_operations := filter (\<lambda>r. \<not> P r) (scd_operations t),
            scd_cells_operations :=
              filter (\<lambda>c. operation_id c \<notin> set gone) (scd_cells_operations t)\<rparr>)"

text \<open>\<open>deleteQuery\<close> of \<open>DeleteOperation\<close>.\<close>

definition deleteQuery :: "ID \<Rightarrow> Owner \<Rightarrow> unit Statement" where
  "deleteQuery a1 a2 now t = ((), delete_operations (\<lambda>r. o_id r = a1 \<and> o_owner r = a2) t)"

text \<open>\<open>deleteImplicitSubscriptionQuery\<close>. The subquery is an aggregate: one row, the
  number of Operation rows with the subscription id; \<open>0 = ALL (...)\<close> compares it.\<close>

definition deleteImplicitSubscriptionQuery :: "ID \<Rightarrow> Owner \<Rightarrow> unit Statement" where
  "deleteImplicitSubscriptionQuery a1 a2 now t =
     (let counts = [COALESCE (Some (int (length (filter (\<lambda>r. o_subscription_id r = a1)
                                                   (scd_operations t))))) 0]
      in ((), t\<lparr>scd_subscriptions :=
                  filter (\<lambda>s. \<not> (s_id s = a1 \<and> s_owner s = a2 \<and> s_implicit s = True
                                 \<and> list_all (\<lambda>n. 0 = n) counts))
                    (scd_subscriptions t)\<rparr>))"

text \<open>\<open>operationsIntersectingVolumeQuery\<close>: the join of \<open>scd_operations\<close> with the
  distinct operation ids of the cells in \<open>$1\<close>, filtered by the four bounds.\<close>

definition operationsIntersectingVolumeQuery ::
  "CellID list \<Rightarrow> real option \<Rightarrow> real option \<Rightarrow> Time option \<Rightarrow> Time option
     \<Rightarrow> OperationRow list Statement" where
  "operationsIntersectingVolumeQuery a1 a2 a3 a4 a5 now t =
     (let unique_operations =
            remdups (map operation_id
              (filter (\<lambda>c. list_ex (\<lambda>x. cell_id c = x) a1) (scd_cells_operations t)));
          joined = concat (map (\<lambda>r. map (\<lambda>u. r) (filter (\<lambda>u. o_id r = u) unique_operations))
                             (scd_operations t))
      in (filter (\<lambda>r. COALESCE (sql_ge (o_altitude_upper r) a2) True
                     \<and> COALESCE (sql_le (o_altitude_lower r) a3) True
                     \<and> COALESCE (sql_ge (o_ends_at r) a4) True
                     \<and> COALESCE (sql_le (o_starts_at r) a5) True) joined, t))"

text \<open>Modelled from the spec: \<open>fetchSubscriptionsForNotification\<close> (same package, not
  part of the file). The spec has it a reader, "subscriptionsIntersecting(cellIDs)":
  one statement that returns the Subscriptions whose cells meet the given ones.\<close>

definition fetchSubscriptionsForNotification ::
  "Queryable \<Rightarrow> CellID list \<Rightarrow> (Error + SubscriptionRow list) \<times> Queryable" where
  "fetchSubscriptionsForNotification q cells =
     QueryContext q
       (\<lambda>now t. (filter (\<lambda>s. list_ex (\<lambda>c. c \<in> set cells) (s_cells s)) (scd_subscriptions t), t))"

subsection \<open>The functions of the file\<close>

text \<open>The \<open>rows.Scan\<close> of \<open>fetchOperations\<close>: the ten columns, and the OVN derived from
  \<open>updated_at\<close> and the id. \<open>Cells\<close> and \<open>State\<close> keep Go's zero values.\<close>

definition scan :: "OperationRow \<Rightarrow> Operation" where
  "scan row =
     \<lparr>ID = o_id row, Owner = o_owner row, Version = o_version row, USSBaseURL = o_url row,
      AltitudeLower = o_altitude_lower row, AltitudeUpper = o_altitude_upper row,
      StartTime = o_starts_at row, EndTime = o_ends_at row,
      SubscriptionID = o_subscription_id row,
      OVN = NewOVNFromTime (o_updated_at row) (o_id row),
      Cells = [], State = OperationStateOther []\<rparr>"

definition fetchOperations ::
  "Queryable \<Rightarrow> OperationRow list Statement \<Rightarrow> (Error + Operation list) \<times> Queryable" where
  "fetchOperations q query =
     (case QueryContext q query of
        (Inl err, q') \<Rightarrow> (Inl err, q')
      | (Inr rows, q') \<Rightarrow> (Inr (map scan rows), q'))"

definition fetchOperation ::
  "Queryable \<Rightarrow> OperationRow list Statement \<Rightarrow> (Error + Operation) \<times> Queryable" where
  "fetchOperation q query =
     (case fetchOperations q query of
        (Inl err, q') \<Rightarrow> (Inl err, q')
      | (Inr operations, q') \<Rightarrow>
          if length operations > 1 then (Inl (UnexpectedRowCount (length operations)), q')
          else if length operations = 0 then (Inl ErrNoRows, q')
          else (Inr (operations ! 0), q'))"

definition fetchOperationByID :: "Queryable \<Rightarrow> ID \<Rightarrow> (Error + Operation) \<times> Queryable" where
  "fetchOperationByID q id' = fetchOperation q (fetchOperationByID_query id')"

text \<open>The loop \<open>for i := range cids\<close> of \<open>pushOperation\<close>, over the pairs
  \<open>(cids[i], clevels[i])\<close>.\<close>

fun pushOperation_cells ::
  "Queryable \<Rightarrow> (CellID \<times> int) list \<Rightarrow> ID \<Rightarrow> (Error + unit) \<times> Queryable" where
  "pushOperation_cells q [] oid = (Inr (), q)"
| "pushOperation_cells q ((cid, clevel) # rest) oid =
     (case ExecContext q (upsertCellsForOperationQuery cid clevel oid) of
        (Inl err, q') \<Rightarrow> (Inl err, q')
      | (Inr _, q') \<Rightarrow> pushOperation_cells q' rest oid)"

definition pushOperation ::
  "Queryable \<Rightarrow> Operation \<Rightarrow> (Error + Operation \<times> SubscriptionRow list) \<times> Queryable" where
  "pushOperation q operation =
     (let cids = Cells operation;
          clevels = map Level (Cells operation);
          cells = Cells operation
      in case fetchOperation q
                (upsertOperationsQuery (ID operation) (Owner operation) (USSBaseURL operation)
                   (AltitudeLower operation) (AltitudeUpper operation)
                   (StartTime operation) (EndTime operation) (SubscriptionID operation)) of
           (Inl err, q1) \<Rightarrow> (Inl err, q1)
         | (Inr fetched, q1) \<Rightarrow>
             (let operation = fetched\<lparr>Cells := cells\<rparr>
              in case pushOperation_cells q1 (zip cids clevels) (ID operation) of
                   (Inl err, q2) \<Rightarrow> (Inl err, q2)
                 | (Inr _, q2) \<Rightarrow>
                     (case ExecContext q2
                             (deleteLeftOverCellsForOperationQuery cids (ID operation)) of
                        (Inl err, q3) \<Rightarrow> (Inl err, q3)
                      | (Inr _, q3) \<Rightarrow>
                          (case fetchSubscriptionsForNotification q3 cids of
                             (Inl err, q4) \<Rightarrow> (Inl err, q4)
                           | (Inr subscriptions, q4) \<Rightarrow>
                               (Inr (operation, subscriptions), q4)))))"

definition populateOperationCells ::
  "Queryable \<Rightarrow> Operation \<Rightarrow> (Error + Operation) \<times> Queryable" where
  "populateOperationCells q o' =
     (case QueryContext q (populateOperationCells_query (ID o')) of
        (Inl err, q') \<Rightarrow> (Inl err, q')
      | (Inr cells, q') \<Rightarrow> (Inr (o'\<lparr>Cells := cells\<rparr>), q'))"

definition GetOperation :: "Queryable \<Rightarrow> ID \<Rightarrow> (Error + Operation) \<times> Queryable" where
  "GetOperation q id' =
     (case fetchOperationByID q id' of
        (Inr sub, q') \<Rightarrow> (Inr sub, q')
      | (Inl err, q') \<Rightarrow> if err = ErrNoRows then (Inl NotFound, q') else (Inl err, q'))"

definition DeleteOperation ::
  "Queryable \<Rightarrow> ID \<Rightarrow> Owner \<Rightarrow> (Error + Operation \<times> SubscriptionRow list) \<times> Queryable" where
  "DeleteOperation q id' owner =
     (case fetchOperationByID q id' of
        (Inl err, q1) \<Rightarrow> if err = ErrNoRows then (Inl NotFound, q1) else (Inl err, q1)
      | (Inr old, q1) \<Rightarrow>
          if Owner old \<noteq> owner then (Inl PermissionDenied, q1)
          else (case populateOperationCells q1 old of
                  (Inl err, q2) \<Rightarrow> (Inl err, q2)
                | (Inr old, q2) \<Rightarrow>
                    (let cids = Cells old
                     in case fetchSubscriptionsForNotification q2 cids of
                          (Inl err, q3) \<Rightarrow> (Inl err, q3)
                        | (Inr subscriptions, q3) \<Rightarrow>
                            (case ExecContext q3 (deleteQuery id' owner) of
                               (Inl err, q4) \<Rightarrow> (Inl err, q4)
                             | (Inr _, q4) \<Rightarrow>
                                 (case ExecContext q4
                                         (deleteImplicitSubscriptionQuery
                                            (SubscriptionID old) owner) of
                                    (Inl err, q5) \<Rightarrow> (Inl err, q5)
                                  | (Inr _, q5) \<Rightarrow> (Inr (old, subscriptions), q5))))))"

definition searchOperations ::
  "Queryable \<Rightarrow> Volume4D \<Rightarrow> (Error + Operation list) \<times> Queryable" where
  "searchOperations q v4d =
     (case SpatialVolume v4d of
        None \<Rightarrow> (Inl BadRequest, q)
      | Some sv \<Rightarrow>
          (case Footprint sv of
             None \<Rightarrow> (Inl BadRequest, q)
           | Some covering \<Rightarrow>
               (case covering of
                  Inl err \<Rightarrow> (Inl BadRequest, q)
                | Inr cells \<Rightarrow>
                    if length cells = 0 then (Inl BadRequest, q)
                    else (let cids = cells
                          in fetchOperations q
                               (operationsIntersectingVolumeQuery cids
                                  (AltitudeLo sv) (AltitudeHi sv)
                                  (v_StartTime v4d) (v_EndTime v4d))))))"

definition SearchOperations ::
  "Queryable \<Rightarrow> Volume4D \<Rightarrow> (Error + Operation list) \<times> Queryable" where
  "SearchOperations q v4d = searchOperations q v4d"

text \<open>The two loops over \<open>key\<close> and \<open>operations\<close> in \<open>UpsertOperation\<close>: \<open>keyIdx\<close> is
  the set of the caller's OVNs; the second loop returns the ID of the first Operation
  whose OVN is not in \<open>keyIdx\<close>, and takes a matched OVN out of it.\<close>

definition keyIdx_of :: "OVN list \<Rightarrow> OVN set" where
  "keyIdx_of key = fold (\<lambda>ovn keyIdx. insert ovn keyIdx) key {}"

fun match_ovns :: "OVN set \<Rightarrow> Operation list \<Rightarrow> ID option" where
  "match_ovns keyIdx [] = None"
| "match_ovns keyIdx (op # rest) =
     (if OVN op \<notin> keyIdx then Some (ID op) else match_ovns (keyIdx - {OVN op}) rest)"

definition UpsertOperation ::
  "Queryable \<Rightarrow> Operation \<Rightarrow> OVN list
     \<Rightarrow> (Error + Operation \<times> SubscriptionRow list) \<times> Queryable" where
  "UpsertOperation q operation key =
     (case fetchOperationByID q (ID operation) of (fetched, q1) \<Rightarrow>
      (case (case fetched of
               Inl err \<Rightarrow> if err = ErrNoRows then Inr None else Inl err
             | Inr found \<Rightarrow> Inr (Some found)) of
         Inl err \<Rightarrow> (Inl err, q1)
       | Inr old \<Rightarrow>
           if old = None \<and> \<not> Version_Empty (Version operation) then (Inl NotFound, q1)
           else if old \<noteq> None \<and> Version_Empty (Version operation)
             then (Inl AlreadyExists, q1)
           else if old \<noteq> None
                   \<and> \<not> Version_Matches (Version operation) (Version (the old))
             then (Inl VersionMismatch, q1)
           else if old \<noteq> None \<and> Owner (the old) \<noteq> Owner operation
             then (Inl PermissionDenied, q1)
           else (case ValidateTimeRange operation of
                   Inl err \<Rightarrow> (Inl err, q1)
                 | Inr operation \<Rightarrow>
                     (case (if State operation = OperationStateAccepted
                               \<or> State operation = OperationStateActivated
                            then (case searchOperations q1
                                         \<lparr>v_StartTime = StartTime operation,
                                          v_EndTime = EndTime operation,
                                          SpatialVolume = Some
                                            \<lparr>AltitudeHi = AltitudeUpper operation,
                                             AltitudeLo = AltitudeLower operation,
                                             Footprint = Some (Inr (Cells operation))\<rparr>\<rparr> of
                                    (Inl err, q2) \<Rightarrow> (Inl err, q2)
                                  | (Inr operations, q2) \<Rightarrow>
                                      (case match_ovns (keyIdx_of key) operations of
                                         Some missing \<Rightarrow> (Inl (ErrMissingOVNs missing), q2)
                                       | None \<Rightarrow> (Inr (), q2)))
                            else (Inr (), q1)) of
                        (Inl err, q2) \<Rightarrow> (Inl err, q2)
                      | (Inr _, q2) \<Rightarrow>
                          (case pushOperation q2 operation of
                             (Inl err, q3) \<Rightarrow> (Inl err, q3)
                           | (Inr (area, subscribers), q3) \<Rightarrow>
                               (Inr (area, subscribers), q3))))))"

subsection \<open>The transaction around a write path\<close>

text \<open>Modelled from the spec: the file never begins, commits or rolls back; the code that
  hands \<open>s.q\<close> to it is not part of the file. The spec has every write path "execute
  as a single atomic transaction" and "on any failure mid-transaction, all prior
  statements in that transaction must be rolled back": the body runs on the handle of
  a transaction opened on the committed tables; its tables are committed when it
  returns a result and dropped when it returns an error.\<close>

definition Transact ::
  "Tables \<Rightarrow> Time \<Rightarrow> bool list \<Rightarrow> (Queryable \<Rightarrow> (Error + 'a) \<times> Queryable)
     \<Rightarrow> (Error + 'a) \<times> Tables" where
  "Transact committed now script body =
     (case body \<lparr>tables = committed, transaction_timestamp = now, outcomes = script\<rparr> of
        (Inl err, q) \<Rightarrow> (Inl err, committed)
      | (Inr result, q) \<Rightarrow> (Inr result, tables q))"

subsection \<open>Notions the properties are stated with\<close>

text \<open>The handle after one statement that left the tables as they were.\<close>

definition after_statement :: "Queryable \<Rightarrow> Queryable" where
  "after_statement q = q\<lparr>outcomes := tl (outcomes q)\<rparr>"

text \<open>Modelled from the spec: the declarations of the tables are not part of the file.
  The spec has "an Operation table keyed by ID", "a Cell Index table keyed by (cellID,
  operationID)" and a Subscription table with an identity: no two rows of a table share
  their key.\<close>

definition primary_keys :: "Tables \<Rightarrow> bool" where
  "primary_keys t =
     (distinct (map o_id (scd_operations t))
      \<and> distinct (map (\<lambda>r. (cell_id r, operation_id r)) (scd_cells_operations t))
      \<and> distinct (map s_id (scd_subscriptions t)))"

text \<open>The version stored for an ID, \<open>None\<close> when the ID has no row.\<close>

definition stored_version :: "Tables \<Rightarrow> ID \<Rightarrow> Version option" where
  "stored_version t i =
     (case filter (\<lambda>r. o_id r = i) (scd_operations t) of
        [] \<Rightarrow> None
      | r # _ \<Rightarrow> Some (o_version r))"

text \<open>The volume \<open>UpsertOperation\<close> searches for conflicts.\<close>

definition conflict_volume :: "Operation \<Rightarrow> Volume4D" where
  "conflict_volume operation =
     \<lparr>v_StartTime = StartTime operation, v_EndTime = EndTime operation,
      SpatialVolume = Some \<lparr>AltitudeHi = AltitudeUpper operation,
                            AltitudeLo = AltitudeLower operation,
                            Footprint = Some (Inr (Cells operation))\<rparr>\<rparr>"

text \<open>The rows a search with covering \<open>cells\<close> and the four bounds matches: a row of the
  Cell Index in the covering, and each bound met or one of its sides unbounded.\<close>

definition intersects :: "Tables \<Rightarrow> CellID list \<Rightarrow> real option \<Rightarrow> real option
     \<Rightarrow> Time option \<Rightarrow> Time option \<Rightarrow> OperationRow \<Rightarrow> bool" where
  "intersects t cells lo hi st en r =
     (list_ex (\<lambda>c. operation_id c = o_id r \<and> cell_id c \<in> set cells) (scd_cells_operations t)
      \<and> (o_altitude_upper r = None \<or> lo = None \<or> the (o_altitude_upper r) \<ge> the lo)
      \<and> (o_altitude_lower r = None \<or> hi = None \<or> the (o_altitude_lower r) \<le> the hi)
      \<and> (o_ends_at r = None \<or> st = None \<or> the (o_ends_at r) \<ge> the st)
      \<and> (o_starts_at r = None \<or> en = None \<or> the (o_starts_at r) \<le> the en))"

text \<open>A volume that \<open>searchOperations\<close> cannot search: no spatial volume, no footprint, a
  covering that failed to compute, or an empty covering.\<close>

definition bad_footprint :: "Volume4D \<Rightarrow> bool" where
  "bad_footprint v4d =
     (case SpatialVolume v4d of
        None \<Rightarrow> True
      | Some sv \<Rightarrow> (case Footprint sv of
                     None \<Rightarrow> True
                   | Some (Inl err) \<Rightarrow> True
                   | Some (Inr cells) \<Rightarrow> cells = []))"

text \<open>Every statement sent between a script and what is left of it was answered: the
  part taken off holds no failure.\<close>

definition all_answered :: "bool list \<Rightarrow> bool list \<Rightarrow> bool" where
  "all_answered script rest =
     (script = replicate (length script - length rest) False @ rest)"

text \<open>A sequence of upserts, each in a transaction of its own timestamp, on the tables
  the one before left; it stops at the first that fails.\<close>

fun upsert_all ::
  "Queryable \<Rightarrow> (Time \<times> Operation \<times> OVN list) list \<Rightarrow> (Error + Operation list) \<times> Queryable" where
  "upsert_all q [] = (Inr [], q)"
| "upsert_all q ((now, operation, key) # calls) =
     (case UpsertOperation (q\<lparr>transaction_timestamp := now\<rparr>) operation key of
        (Inl err, q') \<Rightarrow> (Inl err, q')
      | (Inr (area, subscribers), q') \<Rightarrow>
          (case upsert_all q' calls of
             (Inl err, q'') \<Rightarrow> (Inl err, q'')
           | (Inr areas, q'') \<Rightarrow> (Inr (area # areas), q'')))"

subsection \<open>A scenario\<close>

text \<open>The scenario of the spec: \<open>alice\<close> owns Operation \<open>op1\<close> over the cells 10 and 11,
  altitudes 0 to 100, times 100 to 200, with the implicit Subscription \<open>s1\<close>.
  \<open>ex_empty\<close> is the store before \<open>op1\<close> is created, \<open>ex_stored\<close> after (written at
  time 5), \<open>ex_shared\<close> has a second Operation \<open>op2\<close> on the same Subscription.\<close>

definition ex_s1 :: SubscriptionRow where
  "ex_s1 = \<lparr>s_id = ''s1'', s_owner = ''alice'', s_implicit = True, s_cells = [10]\<rparr>"

definition ex_row1 :: OperationRow where
  "ex_row1 = \<lparr>o_id = ''op1'', o_owner = ''alice'', o_version = 1, o_url = ''uss'',
     o_altitude_lower = Some 0, o_altitude_upper = Some 100,
     o_starts_at = Some 100, o_ends_at = Some 200,
     o_subscription_id = ''s1'', o_updated_at = 5\<rparr>"

definition ex_row2 :: OperationRow where
  "ex_row2 = \<lparr>o_id = ''op2'', o_owner = ''alice'', o_version = 1, o_url = ''uss'',
     o_altitude_lower = Some 0, o_altitude_upper = Some 100,
     o_starts_at = Some 100, o_ends_at = Some 200,
     o_subscription_id = ''s1'', o_updated_at = 6\<rparr>"

definition ex_empty :: Tables where
  "ex_empty = \<lparr>scd_operations = [], scd_cells_operations = [], scd_subscriptions = [ex_s1]\<rparr>"

definition ex_stored :: Tables where
  "ex_stored =
     \<lparr>scd_operations = [ex_row1],
      scd_cells_operations =
        [\<lparr>cell_id = 10, cell_level = 30, operation_id = ''op1''\<rparr>,
         \<lparr>cell_id = 11, cell_level = 30, operation_id = ''op1''\<rparr>],
      scd_subscriptions = [ex_s1]\<rparr>"

definition ex_shared :: Tables where
  "ex_shared =
     \<lparr>scd_operations = [ex_row1, ex_row2],
      scd_cells_operations =
        [\<lparr>cell_id = 10, cell_level = 30, operation_id = ''op1''\<rparr>,
         \<lparr>cell_id = 11, cell_level = 30, operation_id = ''op1''\<rparr>,
         \<lparr>cell_id = 11, cell_level = 30, operation_id = ''op2''\<rparr>],
      scd_subscriptions = [ex_s1]\<rparr>"

text \<open>Later states of the scenario: \<open>ex_updated\<close> after \<open>alice\<close> has updated \<open>op1\<close> at
  time 6, \<open>ex_recelled\<close> when that update moved it to the cells 11 and 12,
  \<open>ex_deleted\<close> after \<open>op1\<close> alone was deleted, \<open>ex_after_shared\<close> after \<open>op1\<close> was
  deleted from \<open>ex_shared\<close>. \<open>ex_area1\<close> and \<open>ex_area2\<close> are the Operations the store
  returns for version 1 and version 2 of \<open>op1\<close>; \<open>ex_volume\<close> is a query volume from
  time 150 on, between the altitudes 20 and 50.\<close>

definition ex_row1_updated :: OperationRow where
  "ex_row1_updated = ex_row1\<lparr>o_version := 2, o_updated_at := 6\<rparr>"

definition ex_updated :: Tables where
  "ex_updated = ex_stored\<lparr>scd_operations := [ex_row1_updated]\<rparr>"

definition ex_recelled :: Tables where
  "ex_recelled =
     \<lparr>scd_operations = [ex_row1_updated],
      scd_cells_operations =
        [\<lparr>cell_id = 11, cell_level = 30, operation_id = ''op1''\<rparr>,
         \<lparr>cell_id = 12, cell_level = 29, operation_id = ''op1''\<rparr>],
      scd_subscriptions = [ex_s1]\<rparr>"

definition ex_deleted :: Tables where
  "ex_deleted = \<lparr>scd_operations = [], scd_cells_operations = [], scd_subscriptions = []\<rparr>"

definition ex_after_shared :: Tables where
  "ex_after_shared =
     \<lparr>scd_operations = [ex_row2],
      scd_cells_operations = [\<lparr>cell_id = 11, cell_level = 30, operation_id = ''op2''\<rparr>],
      scd_subscriptions = [ex_s1]\<rparr>"

definition ex_area1 :: Operation where
  "ex_area1 = (scan ex_row1)\<lparr>Cells := [10, 11]\<rparr>"

definition ex_area2 :: Operation where
  "ex_area2 = (scan ex_row1_updated)\<lparr>Cells := [10, 11]\<rparr>"

definition ex_volume :: "CellID list \<Rightarrow> Volume4D" where
  "ex_volume cells =
     \<lparr>v_StartTime = Some 150, v_EndTime = None,
      SpatialVolume = Some \<lparr>AltitudeHi = Some 50, AltitudeLo = Some 20,
                            Footprint = Some (Inr cells)\<rparr>\<rparr>"

text \<open>The Operation a caller hands to \<open>UpsertOperation\<close>: \<open>op1\<close> as \<open>owner\<close> sends it,
  with the version and the state given.\<close>

definition ex_op :: "ID \<Rightarrow> Owner \<Rightarrow> Version \<Rightarrow> OperationState \<Rightarrow> Operation" where
  "ex_op i owner v st =
     \<lparr>ID = i, Owner = owner, Version = v, USSBaseURL = ''uss'',
      AltitudeLower = Some 0, AltitudeUpper = Some 100,
      StartTime = Some 100, EndTime = Some 200,
      SubscriptionID = ''s1'', OVN = NoOVN, Cells = [10, 11], State = st\<rparr>"

text \<open>A handle on tables \<open>t\<close> in a transaction at time \<open>now\<close>, with a store that answers
  every statement.\<close>

definition ex_handle :: "Tables \<Rightarrow> Time \<Rightarrow> Queryable" where
  "ex_handle t now = \<lparr>tables = t, transaction_timestamp = now, outcomes = []\<rparr>"

section \<open>Properties\<close>

subsection \<open>Statements and reads\<close>

lemma after_statement_simps [simp]:
  "tables (after_statement q) = tables q"
  "transaction_timestamp (after_statement q) = transaction_timestamp q"
  "outcomes (after_statement q) = tl (outcomes q)"
  by (simp_all add: after_statement_def)

lemma QueryContext_eq:
  "QueryContext q query =
     (if next_fails q then (Inl StoreError, after_statement q)
      else (Inr (fst (query (transaction_timestamp q) (tables q))),
            (after_statement q)\<lparr>tables := snd (query (transaction_timestamp q) (tables q))\<rparr>))"
  by (simp add: QueryContext_def after_statement_def split: prod.split)

lemma ExecContext_eq:
  "ExecContext q query =
     (if next_fails q then (Inl StoreError, after_statement q)
      else (Inr (),
            (after_statement q)\<lparr>tables := snd (query (transaction_timestamp q) (tables q))\<rparr>))"
  by (simp add: ExecContext_def QueryContext_eq)

lemma fetchOperations_eq:
  "fetchOperations q query =
     (if next_fails q then (Inl StoreError, after_statement q)
      else (Inr (map scan (fst (query (transaction_timestamp q) (tables q)))),
            (after_statement q)\<lparr>tables := snd (query (transaction_timestamp q) (tables q))\<rparr>))"
  by (simp add: fetchOperations_def QueryContext_eq)

lemma tables_update_same [simp]: "(after_statement q)\<lparr>tables := tables q\<rparr> = after_statement q"
  by (simp add: after_statement_def)

lemma fetchOperationByID_eq:
  "fetchOperationByID q i =
     (if next_fails q then (Inl StoreError, after_statement q)
      else (case filter (\<lambda>r. o_id r = i) (scd_operations (tables q)) of
              [] \<Rightarrow> (Inl ErrNoRows, after_statement q)
            | [row] \<Rightarrow> (Inr (scan row), after_statement q)
            | row # rows \<Rightarrow> (Inl (UnexpectedRowCount (Suc (length rows))), after_statement q)))"
  by (simp add: fetchOperationByID_def fetchOperation_def fetchOperations_eq
      fetchOperationByID_query_def split: list.split)

lemma filter_key_distinct:
  "distinct (map key rows) \<Longrightarrow> row \<in> set rows \<Longrightarrow> filter (\<lambda>r. key r = key row) rows = [row]"
proof (induction rows)
  case Nil
  then show ?case by simp
next
  case (Cons a rows)
  show ?case
  proof (cases "a = row")
    case True
    from Cons.prems True have "key row \<notin> key ` set rows" by simp
    then have "\<forall>x \<in> set rows. key x \<noteq> key row" by (metis imageI)
    then have "filter (\<lambda>r. key r = key row) rows = []"
      by (simp add: filter_empty_conv)
    with True show ?thesis by simp
  next
    case False
    from Cons.prems False have in_rest: "row \<in> set rows" by simp
    from Cons.prems have "key a \<notin> key ` set rows" by simp
    with in_rest have "key a \<noteq> key row" by auto
    moreover from Cons.prems have "distinct (map key rows)" by simp
    ultimately show ?thesis using Cons.IH in_rest by simp
  qed
qed

lemma ValidateTimeRange_Inr: "ValidateTimeRange operation = Inr operation' \<Longrightarrow> operation' = operation"
  by (auto simp: ValidateTimeRange_def split: option.splits if_splits)

subsection \<open>The search\<close>

lemma filter_eq_distinct:
  "distinct xs \<Longrightarrow> filter (\<lambda>u. a = u) xs = (if a \<in> set xs then [a] else [])"
  by (induction xs) auto

lemma concat_map_if: "concat (map (\<lambda>r. if P r then [r] else []) xs) = filter P xs"
  by (induction xs) auto

lemma COALESCE_sql_ge: "COALESCE (sql_ge a b) True = (a = None \<or> b = None \<or> the a \<ge> the b)"
  by (auto simp: COALESCE_def sql_ge_def split: option.splits)

lemma COALESCE_sql_le: "COALESCE (sql_le a b) True = (a = None \<or> b = None \<or> the a \<le> the b)"
  by (auto simp: COALESCE_def sql_le_def split: option.splits)

lemma operationsIntersectingVolumeQuery_rows:
  "fst (operationsIntersectingVolumeQuery cells lo hi st en now t) =
     filter (\<lambda>r. (\<exists>c \<in> set (scd_cells_operations t). operation_id c = o_id r \<and> cell_id c \<in> set cells)
                \<and> (o_altitude_upper r = None \<or> lo = None \<or> the (o_altitude_upper r) \<ge> the lo)
                \<and> (o_altitude_lower r = None \<or> hi = None \<or> the (o_altitude_lower r) \<le> the hi)
                \<and> (o_ends_at r = None \<or> st = None \<or> the (o_ends_at r) \<ge> the st)
                \<and> (o_starts_at r = None \<or> en = None \<or> the (o_starts_at r) \<le> the en))
       (scd_operations t)"
proof -
  let ?uniq = "remdups (map operation_id
              (filter (\<lambda>c. list_ex (\<lambda>x. cell_id c = x) cells) (scd_cells_operations t)))"
  have member: "o_id r \<in> set ?uniq \<longleftrightarrow>
      (\<exists>c \<in> set (scd_cells_operations t). operation_id c = o_id r \<and> cell_id c \<in> set cells)" for r
    by (simp add: list_ex_iff image_iff) metis
  have "concat (map (\<lambda>r. map (\<lambda>u. r) (filter (\<lambda>u. o_id r = u) ?uniq)) (scd_operations t))
      = filter (\<lambda>r. o_id r \<in> set ?uniq) (scd_operations t)"
    by (simp add: filter_eq_distinct concat_map_if if_distrib [of "map _"] cong: if_cong)
  then have joined:
    "concat (map (\<lambda>r. map (\<lambda>u. r) (filter (\<lambda>u. o_id r = u) ?uniq)) (scd_operations t))
      = filter (\<lambda>r. \<exists>c \<in> set (scd_cells_operations t). operation_id c = o_id r \<and> cell_id c \<in> set cells)
          (scd_operations t)"
    by (simp only: member)
  show ?thesis
    by (simp only: operationsIntersectingVolumeQuery_def Let_def fst_conv joined filter_filter
        COALESCE_sql_ge COALESCE_sql_le)
qed

lemma intersects_iff:
  "intersects t cells lo hi st en r \<longleftrightarrow>
     ((\<exists>c \<in> set (scd_cells_operations t). operation_id c = o_id r \<and> cell_id c \<in> set cells)
      \<and> (o_altitude_upper r = None \<or> lo = None \<or> the (o_altitude_upper r) \<ge> the lo)
      \<and> (o_altitude_lower r = None \<or> hi = None \<or> the (o_altitude_lower r) \<le> the hi)
      \<and> (o_ends_at r = None \<or> st = None \<or> the (o_ends_at r) \<ge> the st)
      \<and> (o_starts_at r = None \<or> en = None \<or> the (o_starts_at r) \<le> the en))"
  by (simp add: intersects_def list_ex_iff)

lemma searchOperations_handle:
  "searchOperations q v4d = (r, q') \<Longrightarrow>
     tables q' = tables q \<and> transaction_timestamp q' = transaction_timestamp q"
  by (auto simp: searchOperations_def fetchOperations_eq operationsIntersectingVolumeQuery_def
      Let_def split: option.splits sum.splits if_splits)

lemma searchOperations_found:
  assumes "SpatialVolume v4d = Some sv" and "Footprint sv = Some (Inr cells)" and "cells \<noteq> []"
    and "\<not> next_fails q"
  shows "searchOperations q v4d =
           (Inr (map scan (filter (intersects (tables q) cells (AltitudeLo sv) (AltitudeHi sv)
                                     (v_StartTime v4d) (v_EndTime v4d))
                             (scd_operations (tables q)))),
            after_statement q)"
proof -
  have t: "snd (operationsIntersectingVolumeQuery cells lo hi st en now t) = t" for lo hi st en now t
    by (simp add: operationsIntersectingVolumeQuery_def Let_def)
  have f: "filter (intersects t cells lo hi st en) rows =
       filter (\<lambda>r. (\<exists>c \<in> set (scd_cells_operations t). operation_id c = o_id r \<and> cell_id c \<in> set cells)
                \<and> (o_altitude_upper r = None \<or> lo = None \<or> the (o_altitude_upper r) \<ge> the lo)
                \<and> (o_altitude_lower r = None \<or> hi = None \<or> the (o_altitude_lower r) \<le> the hi)
                \<and> (o_ends_at r = None \<or> st = None \<or> the (o_ends_at r) \<ge> the st)
                \<and> (o_starts_at r = None \<or> en = None \<or> the (o_starts_at r) \<le> the en)) rows"
    for t lo hi st en rows
    by (rule filter_cong) (simp_all add: intersects_iff)
  show ?thesis
    using assms
    by (simp add: searchOperations_def fetchOperations_eq t f
        operationsIntersectingVolumeQuery_rows)
qed

lemma distinct_found:
  assumes "primary_keys t"
  shows "distinct (map OVN (map scan (filter P (scd_operations t))))"
    and "distinct (map ID (map scan (filter P (scd_operations t))))"
proof -
  from assms have d: "distinct (map o_id (filter P (scd_operations t)))"
    by (simp add: primary_keys_def distinct_map_filter)
  then show "distinct (map ID (map scan (filter P (scd_operations t))))"
    by (simp add: scan_def comp_def)
  from d have "distinct (filter P (scd_operations t))"
    and "inj_on o_id (set (filter P (scd_operations t)))"
    by (simp_all add: distinct_map)
  then show "distinct (map OVN (map scan (filter P (scd_operations t))))"
    by (simp add: distinct_map scan_def comp_def NewOVNFromTime_def inj_on_def)
qed

subsection \<open>The write of an Operation\<close>

lemma pushOperation_cells_Inr:
  "pushOperation_cells q pairs oid = (Inr u, q') \<Longrightarrow>
     tables q' = (tables q)\<lparr>scd_cells_operations :=
        fold (\<lambda>p rows. upsert_row (\<lambda>r. (cell_id r, operation_id r))
                \<lparr>cell_id = fst p, cell_level = snd p, operation_id = oid\<rparr> rows)
          pairs (scd_cells_operations (tables q))\<rparr>
     \<and> transaction_timestamp q' = transaction_timestamp q"
proof (induction pairs arbitrary: q)
  case Nil
  then show ?case by simp
next
  case (Cons p pairs)
  obtain cid clevel where p: "p = (cid, clevel)" by (cases p)
  from Cons.prems p have ok: "\<not> next_fails q"
    by (auto simp: ExecContext_eq split: if_splits)
  define q1 where "q1 = (after_statement q)\<lparr>tables :=
      snd (upsertCellsForOperationQuery cid clevel oid (transaction_timestamp q) (tables q))\<rparr>"
  from Cons.prems p ok have "pushOperation_cells q1 pairs oid = (Inr u, q')"
    by (simp add: ExecContext_eq q1_def)
  from Cons.IH [OF this] show ?case
    by (simp add: q1_def p upsertCellsForOperationQuery_def)
qed

lemma set_upsert_row:
  "set (upsert_row key r t) = {x \<in> set t. key x \<noteq> key r} \<union> {r}"
  by (auto simp: upsert_row_def list_ex_iff)

lemma set_fold_upsert_cells:
  "set (fold (\<lambda>p rows. upsert_row (\<lambda>r. (cell_id r, operation_id r))
                \<lparr>cell_id = fst p, cell_level = snd p, operation_id = oid\<rparr> rows)
          (zip cells (map Level cells)) t)
   = {x \<in> set t. \<not> (operation_id x = oid \<and> cell_id x \<in> set cells)}
     \<union> (\<lambda>c. \<lparr>cell_id = c, cell_level = Level c, operation_id = oid\<rparr>) ` set cells"
proof (induction cells arbitrary: t)
  case Nil
  then show ?case by simp
next
  case (Cons c cells)
  show ?case
    apply (simp add: Cons.IH set_upsert_row)
    apply auto
    done
qed

lemma pushOperation_Inr:
  assumes "pushOperation q operation = (Inr (area, subscribers), q')"
  shows "\<exists>row. fst (upsertOperationsQuery (ID operation) (Owner operation) (USSBaseURL operation)
                   (AltitudeLower operation) (AltitudeUpper operation)
                   (StartTime operation) (EndTime operation) (SubscriptionID operation)
                   (transaction_timestamp q) (tables q)) = [row]
           \<and> area = (scan row)\<lparr>Cells := Cells operation\<rparr>
           \<and> scd_operations (tables q') = upsert_row o_id row (scd_operations (tables q))
           \<and> scd_subscriptions (tables q') = scd_subscriptions (tables q)
           \<and> set (scd_cells_operations (tables q')) =
               {x \<in> set (scd_cells_operations (tables q)). operation_id x \<noteq> ID operation}
               \<union> (\<lambda>c. \<lparr>cell_id = c, cell_level = Level c, operation_id = ID operation\<rparr>)
                   ` set (Cells operation)
           \<and> scd_cells_operations (tables q') =
               filter (\<lambda>r. \<not> (list_all (\<lambda>c. cell_id r \<noteq> c) (Cells operation)
                              \<and> operation_id r = ID operation))
                 (fold (\<lambda>p rows. upsert_row (\<lambda>r. (cell_id r, operation_id r))
                          \<lparr>cell_id = fst p, cell_level = snd p, operation_id = ID operation\<rparr>
                          rows)
                    (zip (Cells operation) (map Level (Cells operation)))
                    (scd_cells_operations (tables q)))"
proof -
  let ?upsert = "upsertOperationsQuery (ID operation) (Owner operation) (USSBaseURL operation)
                   (AltitudeLower operation) (AltitudeUpper operation)
                   (StartTime operation) (EndTime operation) (SubscriptionID operation)"
  let ?now = "transaction_timestamp q"
  obtain row where row: "fst (?upsert ?now (tables q)) = [row]" and id_row: "o_id row = ID operation"
    and t1: "snd (?upsert ?now (tables q)) = (tables q)\<lparr>scd_operations := upsert_row o_id row (scd_operations (tables q))\<rparr>"
    by (simp add: upsertOperationsQuery_def Let_def)
  define q1 where "q1 = (after_statement q)\<lparr>tables := snd (?upsert ?now (tables q))\<rparr>"
  from assms have ok: "\<not> next_fails q"
    by (auto simp: pushOperation_def Let_def fetchOperation_def fetchOperations_eq split: if_splits)
  then have f: "fetchOperation q ?upsert = (Inr (scan row), q1)"
    by (simp add: fetchOperation_def fetchOperations_eq row q1_def)
  have id_scan: "ID (scan row) = ID operation" by (simp add: scan_def id_row)
  from assms f obtain u q2 where
    q2: "pushOperation_cells q1 (zip (Cells operation) (map Level (Cells operation))) (ID operation) = (Inr u, q2)"
    by (auto simp: pushOperation_def Let_def id_scan split: prod.splits sum.splits)
  from assms f q2 have ok2: "\<not> next_fails q2"
    by (auto simp: pushOperation_def Let_def id_scan ExecContext_eq split: prod.splits sum.splits if_splits)
  define q3 where "q3 = (after_statement q2)\<lparr>tables := snd (deleteLeftOverCellsForOperationQuery (Cells operation) (ID operation) (transaction_timestamp q2) (tables q2))\<rparr>"
  from assms f q2 ok2 have ok3: "\<not> next_fails q3" and res: "area = (scan row)\<lparr>Cells := Cells operation\<rparr>" and q': "tables q' = tables q3"
    by (auto simp: pushOperation_def Let_def id_scan ExecContext_eq q3_def
        fetchSubscriptionsForNotification_def QueryContext_eq split: prod.splits sum.splits if_splits)
  note c2 = pushOperation_cells_Inr [OF q2]
  have tq1: "tables q1 = (tables q)\<lparr>scd_operations := upsert_row o_id row (scd_operations (tables q))\<rparr>"
    by (simp add: q1_def t1)
  have "set (scd_cells_operations (tables q3)) =
               {x \<in> set (scd_cells_operations (tables q)). operation_id x \<noteq> ID operation}
               \<union> (\<lambda>c. \<lparr>cell_id = c, cell_level = Level c, operation_id = ID operation\<rparr>)
                   ` set (Cells operation)"
    by (auto simp: q3_def deleteLeftOverCellsForOperationQuery_def c2 tq1 set_fold_upsert_cells list_all_iff)
  moreover have "scd_operations (tables q3) = upsert_row o_id row (scd_operations (tables q))"
    "scd_subscriptions (tables q3) = scd_subscriptions (tables q)"
    by (simp_all add: q3_def deleteLeftOverCellsForOperationQuery_def c2 tq1)
  moreover have "scd_cells_operations (tables q3) =
               filter (\<lambda>r. \<not> (list_all (\<lambda>c. cell_id r \<noteq> c) (Cells operation)
                              \<and> operation_id r = ID operation))
                 (fold (\<lambda>p rows. upsert_row (\<lambda>r. (cell_id r, operation_id r))
                          \<lparr>cell_id = fst p, cell_level = snd p, operation_id = ID operation\<rparr>
                          rows)
                    (zip (Cells operation) (map Level (Cells operation)))
                    (scd_cells_operations (tables q)))"
    by (simp add: q3_def deleteLeftOverCellsForOperationQuery_def c2 tq1)
  ultimately show ?thesis using row res q' by simp
qed

lemma upsertOperationsQuery_row:
  assumes "fst (upsertOperationsQuery a1 a2 a3 a4 a5 a6 a7 a8 now t) = [row]"
  shows "o_id row = a1" and "o_version row = COALESCE (stored_version t a1) 0 + 1"
    and "o_owner row = a2" and "o_updated_at row = now"
  using assms
  by (auto simp: upsertOperationsQuery_def Let_def stored_version_def COALESCE_def
      split: list.splits)

lemma filter_upsert_row:
  "filter (\<lambda>x. key x = key r) (upsert_row key r t) \<noteq> []
   \<and> set (filter (\<lambda>x. key x = key r) (upsert_row key r t)) = {r}"
proof (cases "list_ex (\<lambda>x. key x = key r) t")
  case True
  let ?m = "map (\<lambda>x. if key x = key r then r else x) t"
  from True obtain x where "x \<in> set t" "key x = key r" by (auto simp: list_ex_iff)
  then have mem: "r \<in> set (filter (\<lambda>x. key x = key r) ?m)"
    by force
  have sub: "set (filter (\<lambda>x. key x = key r) ?m) \<subseteq> {r}"
    by auto
  have ne: "filter (\<lambda>x. key x = key r) ?m \<noteq> []"
  proof
    assume e: "filter (\<lambda>x. key x = key r) ?m = []"
    from mem show False by (simp only: e list.set empty_iff)
  qed
  from mem sub have "set (filter (\<lambda>x. key x = key r) ?m) = {r}" by blast
  moreover have "upsert_row key r t = ?m" using True by (simp add: upsert_row_def)
  ultimately show ?thesis using ne by (simp only: simp_thms)
next
  case False
  then have "filter (\<lambda>x. key x = key r) t = []"
    by (simp add: list_ex_iff filter_empty_conv)
  with False show ?thesis by (simp add: upsert_row_def)
qed

lemma stored_version_upsert_row:
  assumes "o_id row = i"
  shows "stored_version (t\<lparr>scd_operations := upsert_row o_id row (scd_operations t)\<rparr>) i
           = Some (o_version row)"
proof -
  let ?rows = "filter (\<lambda>x. o_id x = o_id row) (upsert_row o_id row (scd_operations t))"
  from filter_upsert_row [of o_id row "scd_operations t"]
  have ne: "?rows \<noteq> []" and all: "set ?rows = {row}" by simp_all
  then obtain r rest where rows: "?rows = r # rest" by (cases ?rows) auto
  with all have "r = row" by auto
  with rows assms show ?thesis by (simp add: stored_version_def)
qed

subsection \<open>The checks of an upsert\<close>

lemma UpsertOperation_Inr:
  assumes "UpsertOperation q operation key = (Inr (area, subscribers), q')"
  shows "\<exists>q2. pushOperation q2 operation = (Inr (area, subscribers), q')
           \<and> tables q2 = tables q \<and> transaction_timestamp q2 = transaction_timestamp q
           \<and> (case filter (\<lambda>r. o_id r = ID operation) (scd_operations (tables q)) of
                 [] \<Rightarrow> Version_Empty (Version operation)
               | [row] \<Rightarrow> \<not> Version_Empty (Version operation)
                           \<and> Version_Matches (Version operation) (o_version row)
                           \<and> o_owner row = Owner operation
               | _ \<Rightarrow> False)"
proof -
  from assms have ok: "\<not> next_fails q"
    by (auto simp: UpsertOperation_def fetchOperationByID_eq split: if_splits)
  show ?thesis
  proof (cases "filter (\<lambda>r. o_id r = ID operation) (scd_operations (tables q))")
    case Nil
    with assms ok show ?thesis
      apply (simp add: UpsertOperation_def fetchOperationByID_eq
          split: if_splits sum.splits prod.splits option.splits)
       apply (auto dest!: ValidateTimeRange_Inr searchOperations_handle)
      done
  next
    case (Cons row rows)
    show ?thesis
    proof (cases rows)
      case Nil
      with Cons assms ok show ?thesis
        apply (simp add: UpsertOperation_def fetchOperationByID_eq scan_def
            split: if_splits sum.splits prod.splits option.splits)
         apply (auto dest!: ValidateTimeRange_Inr searchOperations_handle)
        done
    next
      case (Cons row2 rows2)
      with \<open>filter (\<lambda>r. o_id r = ID operation) (scd_operations (tables q)) = row # rows\<close>
        assms ok show ?thesis
        by (simp add: UpsertOperation_def fetchOperationByID_eq)
    qed
  qed
qed

lemma keyIdx_of_set: "keyIdx_of key = set key"
  by (simp add: keyIdx_of_def union_set_fold [symmetric])

lemma match_ovns_first:
  "distinct (map OVN operations) \<Longrightarrow>
     match_ovns keyIdx operations =
       (case filter (\<lambda>op. OVN op \<notin> keyIdx) operations of
          [] \<Rightarrow> None | op # _ \<Rightarrow> Some (ID op))"
proof (induction operations arbitrary: keyIdx)
  case Nil
  then show ?case by simp
next
  case (Cons op rest)
  show ?case
  proof (cases "OVN op \<in> keyIdx")
    case False
    then show ?thesis by simp
  next
    case True
    from Cons.prems have "OVN op \<notin> OVN ` set rest" by simp
    then have "\<forall>x \<in> set rest. OVN x \<noteq> OVN op" by (metis imageI)
    then have "filter (\<lambda>x. OVN x \<notin> keyIdx - {OVN op}) rest = filter (\<lambda>x. OVN x \<notin> keyIdx) rest"
      by (intro filter_cong) auto
    with Cons True show ?thesis by simp
  qed
qed

lemma UpsertOperation_switch:
  assumes "\<not> next_fails q" and "primary_keys (tables q)"
    and "(filter (\<lambda>r. o_id r = ID operation) (scd_operations (tables q)) = []
            \<and> Version_Empty (Version operation))
         \<or> (\<exists>row \<in> set (scd_operations (tables q)). o_id row = ID operation
              \<and> \<not> Version_Empty (Version operation)
              \<and> Version_Matches (Version operation) (o_version row)
              \<and> o_owner row = Owner operation)"
    and "ValidateTimeRange operation = Inr operation"
  shows "UpsertOperation q operation key =
     (if State operation = OperationStateAccepted \<or> State operation = OperationStateActivated
      then (case searchOperations (after_statement q) (conflict_volume operation) of
              (Inl err, q2) \<Rightarrow> (Inl err, q2)
            | (Inr operations, q2) \<Rightarrow>
                (case match_ovns (set key) operations of
                   Some missing \<Rightarrow> (Inl (ErrMissingOVNs missing), q2)
                 | None \<Rightarrow> pushOperation q2 operation))
      else pushOperation (after_statement q) operation)"
proof -
  have rewrap: "(case p of (Inl err, q3) \<Rightarrow> (Inl err, q3)
                  | (Inr (area, subscribers), q3) \<Rightarrow> (Inr (area, subscribers), q3)) = p"
    for p :: "(Error + Operation \<times> SubscriptionRow list) \<times> Queryable"
    by (auto split: prod.splits sum.splits)
  from assms(3) show ?thesis
  proof
    assume "filter (\<lambda>r. o_id r = ID operation) (scd_operations (tables q)) = []
            \<and> Version_Empty (Version operation)"
    with assms(1,4) show ?thesis
      by (auto simp: UpsertOperation_def fetchOperationByID_eq rewrap keyIdx_of_set
          conflict_volume_def split: prod.splits sum.splits option.splits)
  next
    assume "\<exists>row \<in> set (scd_operations (tables q)). o_id row = ID operation
              \<and> \<not> Version_Empty (Version operation)
              \<and> Version_Matches (Version operation) (o_version row)
              \<and> o_owner row = Owner operation"
    then obtain row where row: "row \<in> set (scd_operations (tables q))" "o_id row = ID operation"
      "\<not> Version_Empty (Version operation)" "Version_Matches (Version operation) (o_version row)"
      "o_owner row = Owner operation" by blast
    have one: "filter (\<lambda>r. o_id r = ID operation) (scd_operations (tables q)) = [row]"
      using filter_key_distinct [of o_id "scd_operations (tables q)" row] row(1,2) assms(2)
      by (simp add: primary_keys_def)
    from assms(1,4) row(3-5) show ?thesis
      by (auto simp: UpsertOperation_def fetchOperationByID_eq one scan_def rewrap keyIdx_of_set
          conflict_volume_def split: prod.splits sum.splits option.splits)
  qed
qed

lemma UpsertOperation_version:
  assumes "UpsertOperation q operation key = (Inr (area, subscribers), q')"
  shows "Version area = COALESCE (stored_version (tables q) (ID operation)) 0 + 1
       \<and> stored_version (tables q') (ID operation) = Some (Version area)
       \<and> ID area = ID operation"
proof -
  from UpsertOperation_Inr [OF assms] obtain q2 where
    push: "pushOperation q2 operation = (Inr (area, subscribers), q')"
    and t2: "tables q2 = tables q" by blast
  from pushOperation_Inr [OF push] obtain row where
    row: "fst (upsertOperationsQuery (ID operation) (Owner operation) (USSBaseURL operation)
                   (AltitudeLower operation) (AltitudeUpper operation)
                   (StartTime operation) (EndTime operation) (SubscriptionID operation)
                   (transaction_timestamp q2) (tables q2)) = [row]"
    and area: "area = (scan row)\<lparr>Cells := Cells operation\<rparr>"
    and ops: "scd_operations (tables q') = upsert_row o_id row (scd_operations (tables q2))"
    by blast
  note r = upsertOperationsQuery_row [OF row]
  have "stored_version (tables q') (ID operation) = Some (o_version row)"
    using stored_version_upsert_row [of row "ID operation" "tables q2"] r(1) ops
    by (simp add: stored_version_def)
  with r area t2 show ?thesis by (simp add: scan_def)
qed

lemma upsert_all_versions:
  assumes "upsert_all q calls = (Inr areas, q')"
    and "\<forall>c \<in> set calls. ID (fst (snd c)) = i"
  shows "map Version areas =
           map (\<lambda>k. COALESCE (stored_version (tables q) i) 0 + 1 + int k) [0..<length calls]"
  using assms
proof (induction calls arbitrary: q areas)
  case Nil
  then show ?case by simp
next
  case (Cons c calls)
  obtain now operation key where c: "c = (now, operation, key)" by (cases c)
  from Cons.prems(2) c have i: "ID operation = i" by simp
  from Cons.prems(1) c obtain area subscribers q1 rest where
    first: "UpsertOperation (q\<lparr>transaction_timestamp := now\<rparr>) operation key
              = (Inr (area, subscribers), q1)"
    and rest: "upsert_all q1 calls = (Inr rest, q')"
    and areas: "areas = area # rest"
    by (auto split: prod.splits sum.splits)
  from UpsertOperation_version [OF first] i
  have v: "Version area = COALESCE (stored_version (tables q) i) 0 + 1"
    and s: "stored_version (tables q1) i = Some (Version area)" by simp_all
  from Cons.IH [OF rest] Cons.prems(2)
  have "map Version rest =
          map (\<lambda>k. COALESCE (stored_version (tables q1) i) 0 + 1 + int k) [0..<length calls]"
    by simp
  then have "map Version rest =
          map (\<lambda>k. COALESCE (stored_version (tables q) i) 0 + 1 + int (Suc k)) [0..<length calls]"
    by (simp add: s v COALESCE_def)
  then have "map Version rest =
          map (\<lambda>k. COALESCE (stored_version (tables q) i) 0 + 1 + int k) (map Suc [0..<length calls])"
    by (simp add: comp_def)
  then show ?case
    by (simp add: areas v upt_conv_Cons map_Suc_upt del: upt_Suc)
qed

subsection \<open>The delete\<close>

lemma DeleteOperation_Inr:
  assumes "DeleteOperation q i owner = (Inr (old, subscriptions), q')"
  shows "\<exists>row. filter (\<lambda>r. o_id r = i) (scd_operations (tables q)) = [row]
           \<and> o_owner row = owner
           \<and> old = (scan row)\<lparr>Cells := map cell_id (filter (\<lambda>r. operation_id r = i)
                                                     (scd_cells_operations (tables q)))\<rparr>
           \<and> tables q' =
               snd (deleteImplicitSubscriptionQuery (o_subscription_id row) owner
                      (transaction_timestamp q)
                      (snd (deleteQuery i owner (transaction_timestamp q) (tables q))))"
proof -
  from assms have ok: "\<not> next_fails q"
    by (auto simp: DeleteOperation_def fetchOperationByID_eq split: if_splits)
  with assms obtain row where row: "filter (\<lambda>r. o_id r = i) (scd_operations (tables q)) = [row]"
    by (auto simp: DeleteOperation_def fetchOperationByID_eq split: list.splits if_splits)
  then have "row \<in> set (filter (\<lambda>r. o_id r = i) (scd_operations (tables q)))" by simp
  then have id_row: "o_id row = i" by simp
  from assms ok row id_row show ?thesis
    by (auto simp: DeleteOperation_def fetchOperationByID_eq populateOperationCells_def
        QueryContext_eq ExecContext_eq fetchSubscriptionsForNotification_def Let_def
        populateOperationCells_query_def scan_def
        split: if_splits)
qed

lemma deleteQuery_tables:
  assumes "filter (\<lambda>r. o_id r = i) (scd_operations t) = [row]" and "o_owner row = owner"
  shows "scd_operations (snd (deleteQuery i owner now t)) = filter (\<lambda>r. o_id r \<noteq> i) (scd_operations t)"
    and "scd_cells_operations (snd (deleteQuery i owner now t))
           = filter (\<lambda>c. operation_id c \<noteq> i) (scd_cells_operations t)"
    and "scd_subscriptions (snd (deleteQuery i owner now t)) = scd_subscriptions t"
proof -
  have only: "r = row" if "r \<in> set (scd_operations t)" "o_id r = i" for r
  proof -
    from that have "r \<in> set (filter (\<lambda>r. o_id r = i) (scd_operations t))" by simp
    with assms(1) show ?thesis by simp
  qed
  have "row \<in> set (filter (\<lambda>r. o_id r = i) (scd_operations t))" using assms(1) by simp
  then have row: "row \<in> set (scd_operations t)" "o_id row = i" by simp_all
  have same: "filter (\<lambda>r. o_id r = i \<and> o_owner r = owner) (scd_operations t)
      = filter (\<lambda>r. o_id r = i) (scd_operations t)"
    using only assms(2) by (intro filter_cong) auto
  have keep: "filter (\<lambda>r. o_id r = i \<longrightarrow> o_owner r \<noteq> owner) (scd_operations t)
      = filter (\<lambda>r. o_id r \<noteq> i) (scd_operations t)"
    using only assms(2) by (intro filter_cong) auto
  show "scd_operations (snd (deleteQuery i owner now t)) = filter (\<lambda>r. o_id r \<noteq> i) (scd_operations t)"
    by (simp add: deleteQuery_def delete_operations_def Let_def keep)
  show "scd_cells_operations (snd (deleteQuery i owner now t))
           = filter (\<lambda>c. operation_id c \<noteq> i) (scd_cells_operations t)"
    using row by (simp add: deleteQuery_def delete_operations_def Let_def same assms(1))
  show "scd_subscriptions (snd (deleteQuery i owner now t)) = scd_subscriptions t"
    by (simp add: deleteQuery_def delete_operations_def Let_def)
qed

lemma deleteImplicitSubscriptionQuery_tables:
  "scd_operations (snd (deleteImplicitSubscriptionQuery sid owner now t)) = scd_operations t"
  "scd_cells_operations (snd (deleteImplicitSubscriptionQuery sid owner now t)) = scd_cells_operations t"
  "scd_subscriptions (snd (deleteImplicitSubscriptionQuery sid owner now t)) =
     filter (\<lambda>s. \<not> (s_id s = sid \<and> s_owner s = owner \<and> s_implicit s
                    \<and> (\<forall>r \<in> set (scd_operations t). o_subscription_id r \<noteq> sid)))
       (scd_subscriptions t)"
  by (simp_all add: deleteImplicitSubscriptionQuery_def Let_def COALESCE_def filter_empty_conv)

subsection \<open>A failed statement fails the call\<close>

lemma all_answered_iff: "all_answered script rest \<longleftrightarrow> (\<exists>n. script = replicate n False @ rest)"
proof
  assume "all_answered script rest"
  then show "\<exists>n. script = replicate n False @ rest"
    unfolding all_answered_def by blast
next
  assume "\<exists>n. script = replicate n False @ rest"
  then obtain n where n: "script = replicate n False @ rest" by blast
  then have "length script - length rest = n" by simp
  with n show "all_answered script rest" by (simp add: all_answered_def)
qed

lemma all_answered_refl: "all_answered xs xs"
  by (simp add: all_answered_def)

lemma all_answered_trans [trans]:
  "all_answered xs ys \<Longrightarrow> all_answered ys zs \<Longrightarrow> all_answered xs zs"
proof -
  assume "all_answered xs ys" "all_answered ys zs"
  then obtain n m where "xs = replicate n False @ ys" "ys = replicate m False @ zs"
    by (auto simp: all_answered_iff)
  then have "xs = replicate (n + m) False @ zs" by (simp add: replicate_add)
  then show ?thesis unfolding all_answered_iff by blast
qed

lemma all_answered_statement:
  assumes "\<not> next_fails q" and "outcomes q' = tl (outcomes q)"
  shows "all_answered (outcomes q) (outcomes q')"
proof (cases "outcomes q")
  case Nil
  with assms show ?thesis by (simp add: all_answered_def)
next
  case (Cons b bs)
  with assms have "b = False" by (simp add: next_fails_def)
  with Cons assms have "outcomes q = replicate 1 False @ outcomes q'" by simp
  then show ?thesis unfolding all_answered_iff by blast
qed

lemma QueryContext_answered:
  assumes "QueryContext q query = (Inr r, q')"
  shows "all_answered (outcomes q) (outcomes q')"
proof -
  from assms have "\<not> next_fails q" "outcomes q' = tl (outcomes q)"
    by (auto simp: QueryContext_eq split: if_splits)
  then show ?thesis by (rule all_answered_statement)
qed

lemma fetchOperation_answered:
  assumes "fetchOperation q query = (r, q')" and "r \<noteq> Inl StoreError"
  shows "all_answered (outcomes q) (outcomes q')"
proof -
  from assms have "\<not> next_fails q" "outcomes q' = tl (outcomes q)"
    by (auto simp: fetchOperation_def fetchOperations_eq split: if_splits)
  then show ?thesis by (rule all_answered_statement)
qed

lemma searchOperations_answered:
  assumes "searchOperations q v4d = (Inr found, q')"
  shows "all_answered (outcomes q) (outcomes q')"
proof -
  from assms have "\<not> next_fails q" "outcomes q' = tl (outcomes q)"
    by (auto simp: searchOperations_def fetchOperations_eq
        split: if_splits option.splits sum.splits)
  then show ?thesis by (rule all_answered_statement)
qed

lemma pushOperation_cells_answered:
  "pushOperation_cells q pairs oid = (Inr u, q') \<Longrightarrow> all_answered (outcomes q) (outcomes q')"
proof (induction pairs arbitrary: q)
  case Nil
  then show ?case by (simp add: all_answered_refl)
next
  case (Cons p pairs)
  obtain cid clevel where p: "p = (cid, clevel)" by (cases p)
  obtain r1 q1 where e: "ExecContext q (upsertCellsForOperationQuery cid clevel oid) = (r1, q1)"
    by (cases "ExecContext q (upsertCellsForOperationQuery cid clevel oid)")
  with Cons.prems p obtain u1 where r1: "r1 = Inr u1" and
    rest: "pushOperation_cells q1 pairs oid = (Inr u, q')"
    by (cases r1) auto
  from e r1 have "all_answered (outcomes q) (outcomes q1)"
    by (simp add: ExecContext_def QueryContext_answered)
  also have "all_answered (outcomes q1) (outcomes q')"
    by (rule Cons.IH [OF rest])
  finally show ?case .
qed

lemma pushOperation_answered:
  assumes "pushOperation q operation = (Inr r, q')"
  shows "all_answered (outcomes q) (outcomes q')"
proof -
  let ?upsert = "upsertOperationsQuery (ID operation) (Owner operation) (USSBaseURL operation)
                   (AltitudeLower operation) (AltitudeUpper operation)
                   (StartTime operation) (EndTime operation) (SubscriptionID operation)"
  from assms obtain fetched q1 where f: "fetchOperation q ?upsert = (Inr fetched, q1)"
    by (auto simp: pushOperation_def Let_def split: prod.splits sum.splits)
  from assms f obtain u q2 where c: "pushOperation_cells q1
      (zip (Cells operation) (map Level (Cells operation))) (ID fetched) = (Inr u, q2)"
    by (auto simp: pushOperation_def Let_def split: prod.splits sum.splits)
  from assms f c obtain u3 q3 where d: "ExecContext q2
      (deleteLeftOverCellsForOperationQuery (Cells operation) (ID fetched)) = (Inr u3, q3)"
    by (auto simp: pushOperation_def Let_def split: prod.splits sum.splits)
  from assms f c d obtain subs where s: "fetchSubscriptionsForNotification q3 (Cells operation)
      = (Inr subs, q')"
    by (auto simp: pushOperation_def Let_def split: prod.splits sum.splits)
  have "all_answered (outcomes q) (outcomes q1)"
    by (rule fetchOperation_answered [OF f]) simp
  also have "all_answered (outcomes q1) (outcomes q2)"
    by (rule pushOperation_cells_answered [OF c])
  also have "all_answered (outcomes q2) (outcomes q3)"
    using d by (simp add: ExecContext_def QueryContext_answered)
  also have "all_answered (outcomes q3) (outcomes q')"
    using s by (simp add: fetchSubscriptionsForNotification_def QueryContext_answered)
  finally show ?thesis .
qed

lemma UpsertOperation_answered:
  assumes "UpsertOperation q operation key = (Inr r, q')"
  shows "all_answered (outcomes q) (outcomes q')"
proof -
  obtain fetched q1 where f: "fetchOperationByID q (ID operation) = (fetched, q1)"
    by (cases "fetchOperationByID q (ID operation)")
  with assms have ne: "fetched \<noteq> Inl StoreError"
    by (auto simp: UpsertOperation_def split: sum.splits if_splits)
  have a1: "all_answered (outcomes q) (outcomes q1)"
    using f ne unfolding fetchOperationByID_def by (rule fetchOperation_answered)
  from assms f obtain q2 operation' where
    p: "pushOperation q2 operation' = (Inr r, q')"
    and q2: "q2 = q1 \<or> (\<exists>found v. searchOperations q1 v = (Inr found, q2))"
    by (auto simp: UpsertOperation_def
        split: sum.splits if_splits prod.splits option.splits)
  from q2 have a2: "all_answered (outcomes q1) (outcomes q2)"
    by (auto simp: all_answered_refl dest: searchOperations_answered)
  from a1 a2 pushOperation_answered [OF p] show ?thesis
    by (blast intro: all_answered_trans)
qed

lemma DeleteOperation_answered:
  assumes "DeleteOperation q i owner = (Inr r, q')"
  shows "all_answered (outcomes q) (outcomes q')"
proof -
  from assms obtain old q1 where f: "fetchOperationByID q i = (Inr old, q1)"
    by (auto simp: DeleteOperation_def split: prod.splits sum.splits if_splits)
  from assms f obtain old2 q2 where p: "populateOperationCells q1 old = (Inr old2, q2)"
    by (auto simp: DeleteOperation_def split: prod.splits sum.splits if_splits)
  from assms f p obtain subs q3 where
    s: "fetchSubscriptionsForNotification q2 (Cells old2) = (Inr subs, q3)"
    by (auto simp: DeleteOperation_def Let_def split: prod.splits sum.splits if_splits)
  from assms f p s obtain u4 q4 where d: "ExecContext q3 (deleteQuery i owner) = (Inr u4, q4)"
    by (auto simp: DeleteOperation_def Let_def split: prod.splits sum.splits if_splits)
  from assms f p s d obtain u5 where
    e: "ExecContext q4 (deleteImplicitSubscriptionQuery (SubscriptionID old2) owner) = (Inr u5, q')"
    by (auto simp: DeleteOperation_def Let_def split: prod.splits sum.splits if_splits)
  have "all_answered (outcomes q) (outcomes q1)"
    using f unfolding fetchOperationByID_def by (rule fetchOperation_answered) simp
  also have "all_answered (outcomes q1) (outcomes q2)"
    using p by (auto simp: populateOperationCells_def QueryContext_answered
        split: prod.splits sum.splits)
  also have "all_answered (outcomes q2) (outcomes q3)"
    using s by (simp add: fetchSubscriptionsForNotification_def QueryContext_answered)
  also have "all_answered (outcomes q3) (outcomes q4)"
    using d by (simp add: ExecContext_def QueryContext_answered)
  also have "all_answered (outcomes q4) (outcomes q')"
    using e by (simp add: ExecContext_def QueryContext_answered)
  finally show ?thesis .
qed

subsection \<open>The keys of the tables are kept\<close>

text \<open>No statement of the file breaks a key, so a write path that starts on keyed tables
  leaves keyed tables, whether it returns a result or an error.\<close>

lemma map_key_replace:
  "map key (map (\<lambda>x. if key x = key r then r else x) t) = map key t"
  by (induction t) auto

lemma distinct_upsert_row:
  "distinct (map key t) \<Longrightarrow> distinct (map key (upsert_row key r t))"
  by (auto simp: upsert_row_def map_key_replace list_ex_iff simp del: map_map)

lemma primary_keys_statements:
  assumes "primary_keys t"
  shows "primary_keys (snd (fetchOperationByID_query i now t))"
    and "primary_keys (snd (upsertOperationsQuery a1 a2 a3 a4 a5 a6 a7 a8 now t))"
    and "primary_keys (snd (upsertCellsForOperationQuery c l i now t))"
    and "primary_keys (snd (deleteLeftOverCellsForOperationQuery cs i now t))"
    and "primary_keys (snd (populateOperationCells_query i now t))"
    and "primary_keys (snd (deleteQuery i owner now t))"
    and "primary_keys (snd (deleteImplicitSubscriptionQuery i owner now t))"
    and "primary_keys (snd (operationsIntersectingVolumeQuery cs lo hi st en now t))"
  using assms
  by (simp_all add: primary_keys_def fetchOperationByID_query_def upsertOperationsQuery_def
      upsertCellsForOperationQuery_def deleteLeftOverCellsForOperationQuery_def
      populateOperationCells_query_def deleteQuery_def delete_operations_def
      deleteImplicitSubscriptionQuery_def operationsIntersectingVolumeQuery_def Let_def
      distinct_upsert_row distinct_map_filter del: map_map)

lemma QueryContext_primary_keys:
  assumes "QueryContext q query = (r, q')" and "primary_keys (tables q)"
    and "\<And>now t. primary_keys t \<Longrightarrow> primary_keys (snd (query now t))"
  shows "primary_keys (tables q')"
  using assms by (auto simp: QueryContext_eq split: if_splits)

lemma fetchOperation_primary_keys:
  assumes "fetchOperation q query = (r, q')" and "primary_keys (tables q)"
    and "\<And>now t. primary_keys t \<Longrightarrow> primary_keys (snd (query now t))"
  shows "primary_keys (tables q')"
  using assms
  by (auto simp: fetchOperation_def fetchOperations_eq split: if_splits)

lemma pushOperation_cells_primary_keys:
  "pushOperation_cells q pairs oid = (r, q') \<Longrightarrow> primary_keys (tables q)
     \<Longrightarrow> primary_keys (tables q')"
proof (induction pairs arbitrary: q)
  case Nil
  then show ?case by simp
next
  case (Cons p pairs)
  obtain cid clevel where p: "p = (cid, clevel)" by (cases p)
  show ?case
  proof (cases "next_fails q")
    case True
    with Cons.prems p show ?thesis by (auto simp: ExecContext_eq)
  next
    case False
    define q1 where "q1 = (after_statement q)\<lparr>tables :=
      snd (upsertCellsForOperationQuery cid clevel oid (transaction_timestamp q) (tables q))\<rparr>"
    from Cons.prems(1) p False have "pushOperation_cells q1 pairs oid = (r, q')"
      by (simp add: ExecContext_eq q1_def)
    moreover have "primary_keys (tables q1)"
      by (simp add: q1_def primary_keys_statements(3) [OF Cons.prems(2)])
    ultimately show ?thesis by (rule Cons.IH)
  qed
qed

lemma pushOperation_primary_keys:
  assumes "pushOperation q operation = (r, q')" and "primary_keys (tables q)"
  shows "primary_keys (tables q')"
proof -
  obtain r1 q1 where f: "fetchOperation q
                (upsertOperationsQuery (ID operation) (Owner operation) (USSBaseURL operation)
                   (AltitudeLower operation) (AltitudeUpper operation)
                   (StartTime operation) (EndTime operation) (SubscriptionID operation)) = (r1, q1)"
    by (cases "fetchOperation q
                (upsertOperationsQuery (ID operation) (Owner operation) (USSBaseURL operation)
                   (AltitudeLower operation) (AltitudeUpper operation)
                   (StartTime operation) (EndTime operation) (SubscriptionID operation))")
  have pk1: "primary_keys (tables q1)"
    by (rule fetchOperation_primary_keys [OF f assms(2)]) (rule primary_keys_statements(2))
  show ?thesis
  proof (cases r1)
    case (Inl err)
    with assms(1) f pk1 show ?thesis by (simp add: pushOperation_def Let_def)
  next
    case (Inr fetched)
    obtain r2 q2 where c: "pushOperation_cells q1
        (zip (Cells operation) (map Level (Cells operation))) (ID fetched) = (r2, q2)"
      by (cases "pushOperation_cells q1
        (zip (Cells operation) (map Level (Cells operation))) (ID fetched)")
    have pk2: "primary_keys (tables q2)"
      by (rule pushOperation_cells_primary_keys [OF c pk1])
    from assms(1) f Inr c pk2 show ?thesis
      by (auto simp: pushOperation_def Let_def ExecContext_eq
          fetchSubscriptionsForNotification_def QueryContext_eq
          primary_keys_statements(4)
          split: sum.splits if_splits)
  qed
qed

lemma UpsertOperation_primary_keys:
  assumes "UpsertOperation q operation key = (r, q')" and "primary_keys (tables q)"
  shows "primary_keys (tables q')"
proof -
  have s: "primary_keys (tables q2)"
    if "searchOperations q1 v = (x, q2)" "primary_keys (tables q1)" for q1 v x q2
    using searchOperations_handle [OF that(1)] that(2) by simp
  have p: "primary_keys (tables q3)"
    if "pushOperation q2 o2 = (x, q3)" "primary_keys (tables q2)" for q2 o2 x q3
    using pushOperation_primary_keys [OF that] .
  from assms show ?thesis
    by (auto simp: UpsertOperation_def fetchOperationByID_eq
        split: if_splits list.splits sum.splits prod.splits option.splits
        dest: s p)
qed

lemma DeleteOperation_primary_keys:
  assumes "DeleteOperation q i owner = (r, q')" and "primary_keys (tables q)"
  shows "primary_keys (tables q')"
  using assms
  by (auto simp: DeleteOperation_def fetchOperationByID_eq populateOperationCells_def
      QueryContext_eq ExecContext_eq fetchSubscriptionsForNotification_def Let_def
      populateOperationCells_query_def primary_keys_statements(6,7)
      split: if_splits list.splits)

subsection \<open>Runs of the scenario\<close>

text \<open>The calls of the scenario, evaluated: the creation of \<open>op1\<close>, its update, both in
  a row, an update that moves it to other cells, its deletion alone and beside \<open>op2\<close>,
  the conflict search of a write over its cells, an update that does not name its own
  OVN, and a creation and a deletion in which the store fails a late statement.\<close>

lemmas run_simps = UpsertOperation_def fetchOperationByID_eq searchOperations_def fetchOperations_eq
  pushOperation_def fetchOperation_def ExecContext_eq QueryContext_eq next_fails_def
  fetchSubscriptionsForNotification_def ValidateTimeRange_def Version_Empty_def Version_Matches_def
  upsertOperationsQuery_def upsertCellsForOperationQuery_def deleteLeftOverCellsForOperationQuery_def
  operationsIntersectingVolumeQuery_def upsert_row_def COALESCE_def sql_ge_def sql_le_def
  keyIdx_of_def scan_def NewOVNFromTime_def Level_def lowest_set_bit.simps after_statement_def
  DeleteOperation_def populateOperationCells_def populateOperationCells_query_def deleteQuery_def
  delete_operations_def deleteImplicitSubscriptionQuery_def Let_def

lemmas ex_simps = ex_handle_def ex_empty_def ex_stored_def ex_shared_def ex_row1_def ex_row2_def
  ex_s1_def ex_op_def ex_row1_updated_def ex_updated_def ex_area1_def ex_area2_def ex_deleted_def

lemmas ex_simps2 = ex_simps ex_recelled_def ex_after_shared_def ex_volume_def

lemma ex_handle_simps [simp]:
  "tables (ex_handle t now) = t"
  "transaction_timestamp (ex_handle t now) = now"
  "outcomes (ex_handle t now) = []"
  "\<not> next_fails (ex_handle t now)"
  "after_statement (ex_handle t now) = ex_handle t now"
  by (simp_all add: ex_handle_def next_fails_def after_statement_def)

lemma ex_primary_keys:
  "primary_keys ex_empty" "primary_keys ex_stored" "primary_keys ex_shared"
  by (simp_all add: primary_keys_def ex_simps)

lemma run_create:
  "UpsertOperation (ex_handle ex_empty 5) (ex_op ''op1'' ''alice'' 0 OperationStateAccepted) []
     = (Inr (ex_area1, [ex_s1]), ex_handle ex_stored 5)"
  by (simp add: run_simps ex_simps)

lemma run_update:
  "UpsertOperation (ex_handle ex_stored 6) (ex_op ''op1'' ''alice'' 1 OperationStateAccepted)
       [Token 5 ''op1'']
     = (Inr (ex_area2, [ex_s1]), ex_handle ex_updated 6)"
  by (simp add: run_simps ex_simps)

lemma run_seq:
  "upsert_all (ex_handle ex_empty 0)
      [(5, ex_op ''op1'' ''alice'' 0 OperationStateAccepted, []),
       (6, ex_op ''op1'' ''alice'' 1 OperationStateAccepted, [Token 5 ''op1''])]
     = (Inr [ex_area1, ex_area2], ex_handle ex_updated 6)"
proof -
  have a: "(ex_handle ex_empty 0)\<lparr>transaction_timestamp := 5\<rparr> = ex_handle ex_empty 5"
    "(ex_handle ex_stored 5)\<lparr>transaction_timestamp := 6\<rparr> = ex_handle ex_stored 6"
    by (simp_all add: ex_handle_def)
  show ?thesis by (simp add: a run_create run_update)
qed

lemma run_recell:
  "UpsertOperation (ex_handle ex_stored 6)
       ((ex_op ''op1'' ''alice'' 1 OperationStateAccepted)\<lparr>Cells := [11, 12]\<rparr>)
       [Token 5 ''op1'']
     = (Inr (ex_area2\<lparr>Cells := [11, 12]\<rparr>, []), ex_handle ex_recelled 6)"
  by (simp add: run_simps ex_simps2)

lemma run_delete:
  "DeleteOperation (ex_handle ex_stored 6) ''op1'' ''alice''
     = (Inr (ex_area1, [ex_s1]), ex_handle ex_deleted 6)"
  by (simp add: run_simps ex_simps)

lemma run_delete_shared':
  "DeleteOperation (ex_handle ex_shared 7) ''op1'' ''alice''
     = (Inr (ex_area1, [ex_s1]), ex_handle ex_after_shared 7)"
  by (simp add: run_simps ex_simps2)

lemma run_conflict:
  "searchOperations (ex_handle ex_stored 6)
       (conflict_volume (ex_op i owner v st)) = (Inr [scan ex_row1], ex_handle ex_stored 6)"
  by (simp add: run_simps ex_simps2 conflict_volume_def)

lemma run_own_missing:
  "UpsertOperation (ex_handle ex_stored 6) (ex_op ''op1'' ''alice'' 1 OperationStateAccepted) []
     = (Inl (ErrMissingOVNs ''op1''), ex_handle ex_stored 6)"
  by (simp add: run_simps ex_simps2)

lemma run_create_fault:
  "UpsertOperation \<lparr>tables = ex_empty, transaction_timestamp = 5,
                    outcomes = [False, False, False, True]\<rparr>
       (ex_op ''op1'' ''alice'' 0 OperationStateAccepted) []
     = (Inl StoreError, ex_handle (ex_empty\<lparr>scd_operations := [ex_row1]\<rparr>) 5)"
  by (simp add: run_simps ex_simps2)

lemma run_delete_fault:
  "DeleteOperation \<lparr>tables = ex_stored, transaction_timestamp = 6,
                    outcomes = [False, False, False, False, True]\<rparr> ''op1'' ''alice''
     = (Inl StoreError, ex_handle (ex_deleted\<lparr>scd_subscriptions := [ex_s1]\<rparr>) 6)"
  by (simp add: run_simps ex_simps2)

section \<open>The claims\<close>

subsection \<open>Conflicts must be acknowledged\<close>

text \<open>
  C1. Take an upsert that the lookup and the checks let through: the store answers the
  lookup, the ID has no row and the Version is empty or the ID has a row with the matching
  Version and the same Owner, and the time range is valid. If the target State is
  Accepted or Activated, \<open>UpsertOperation\<close> searches the volume made of the Operation's
  own cells, altitudes and times; when that search returns, it has found the
  Operations of the rows that \<open>intersects\<close> describes, and it has written nothing.
  If every found OVN is among the caller's, the upsert is the write \<open>pushOperation\<close>;
  if not, it fails with \<open>ErrMissingOVNs\<close> naming the first found Operation whose OVN
  the caller did not supply. OVNs of the caller that belong to no found Operation
  change nothing. For any other target State the upsert is the write \<open>pushOperation\<close>
  at once, and the caller's OVNs are never looked at.
\<close>

theorem conflict_acknowledgement:
  assumes "\<not> next_fails q" and "primary_keys (tables q)"
    and "(filter (\<lambda>r. o_id r = ID operation) (scd_operations (tables q)) = []
            \<and> Version_Empty (Version operation))
         \<or> (\<exists>row \<in> set (scd_operations (tables q)). o_id row = ID operation
              \<and> \<not> Version_Empty (Version operation)
              \<and> Version_Matches (Version operation) (o_version row)
              \<and> o_owner row = Owner operation)"
    and "ValidateTimeRange operation = Inr operation"
  shows "((State operation = OperationStateAccepted \<or> State operation = OperationStateActivated)
          \<and> searchOperations (after_statement q) (conflict_volume operation) = (Inr found, searched)
          \<longrightarrow>
            found = map scan (filter (intersects (tables q) (Cells operation)
                                        (AltitudeLower operation) (AltitudeUpper operation)
                                        (StartTime operation) (EndTime operation))
                                (scd_operations (tables q)))
            \<and> tables searched = tables q
            \<and> (filter (\<lambda>op. OVN op \<notin> set key) found = []
                 \<longrightarrow> UpsertOperation q operation key = pushOperation searched operation)
            \<and> (\<forall>op rest. filter (\<lambda>op. OVN op \<notin> set key) found = op # rest
                 \<longrightarrow> UpsertOperation q operation key = (Inl (ErrMissingOVNs (ID op)), searched))
            \<and> (set extra \<inter> OVN ` set found = {}
                 \<longrightarrow> UpsertOperation q operation (key @ extra) = UpsertOperation q operation key))
       \<and> (State operation \<noteq> OperationStateAccepted \<and> State operation \<noteq> OperationStateActivated
          \<longrightarrow> UpsertOperation q operation key = pushOperation (after_statement q) operation
              \<and> UpsertOperation q operation key = UpsertOperation q operation [])"
proof -
  note sw = UpsertOperation_switch [OF assms]
  have other: "UpsertOperation q operation key = pushOperation (after_statement q) operation
              \<and> UpsertOperation q operation key = UpsertOperation q operation []"
    if "State operation \<noteq> OperationStateAccepted \<and> State operation \<noteq> OperationStateActivated"
    using that by (simp add: sw)
  have active: "found = map scan (filter (intersects (tables q) (Cells operation)
                                        (AltitudeLower operation) (AltitudeUpper operation)
                                        (StartTime operation) (EndTime operation))
                                (scd_operations (tables q)))
            \<and> tables searched = tables q
            \<and> (filter (\<lambda>op. OVN op \<notin> set key) found = []
                 \<longrightarrow> UpsertOperation q operation key = pushOperation searched operation)
            \<and> (\<forall>op rest. filter (\<lambda>op. OVN op \<notin> set key) found = op # rest
                 \<longrightarrow> UpsertOperation q operation key = (Inl (ErrMissingOVNs (ID op)), searched))
            \<and> (set extra \<inter> OVN ` set found = {}
                 \<longrightarrow> UpsertOperation q operation (key @ extra) = UpsertOperation q operation key)"
    if st: "State operation = OperationStateAccepted \<or> State operation = OperationStateActivated"
      and search: "searchOperations (after_statement q) (conflict_volume operation) = (Inr found, searched)"
  proof -
    have ne: "Cells operation \<noteq> []" and ok: "\<not> next_fails (after_statement q)"
      using search
      by (auto simp: searchOperations_def conflict_volume_def fetchOperations_eq split: if_splits)
    from searchOperations_found [of "conflict_volume operation" _ "Cells operation" "after_statement q"]
      ne ok search
    have found: "found = map scan (filter (intersects (tables q) (Cells operation)
                                        (AltitudeLower operation) (AltitudeUpper operation)
                                        (StartTime operation) (EndTime operation))
                                (scd_operations (tables q)))"
      by (simp add: conflict_volume_def)
    have t2: "tables searched = tables q"
      using searchOperations_handle [OF search] by simp
    have d: "distinct (map OVN found)"
      unfolding found by (rule distinct_found(1) [OF assms(2)])
    have m: "match_ovns (set k) found =
       (case filter (\<lambda>op. OVN op \<notin> set k) found of [] \<Rightarrow> None | op # _ \<Rightarrow> Some (ID op))" for k
      by (rule match_ovns_first [OF d])
    have u: "UpsertOperation q operation k =
        (case filter (\<lambda>op. OVN op \<notin> set k) found of
           [] \<Rightarrow> pushOperation searched operation
         | op # _ \<Rightarrow> (Inl (ErrMissingOVNs (ID op)), searched))" for k
      using st by (simp add: UpsertOperation_switch [OF assms] search m split: list.splits)
    have extra: "UpsertOperation q operation (key @ extra) = UpsertOperation q operation key"
      if "set extra \<inter> OVN ` set found = {}"
    proof -
      from that have "filter (\<lambda>op. OVN op \<notin> set (key @ extra)) found
          = filter (\<lambda>op. OVN op \<notin> set key) found"
        by (intro filter_cong) auto
      then show ?thesis by (simp only: u)
    qed
    from found t2 extra show ?thesis by (simp add: u)
  qed
  from other active show ?thesis by blast
qed

text \<open>In the scenario \<open>bob\<close> creates \<open>op2\<close> over the cells of \<open>op1\<close>: without OVNs the call
  fails naming \<open>op1\<close>; with the OVN of \<open>op1\<close> it is the write; one more OVN changes
  nothing; with the State Ended it is the write without any OVN.\<close>

theorem conflict_acknowledgement_witness:
  "\<not> next_fails (ex_handle ex_stored 6) \<and> primary_keys (tables (ex_handle ex_stored 6))
   \<and> filter (\<lambda>r. o_id r = ''op2'') (scd_operations (tables (ex_handle ex_stored 6))) = []
   \<and> Version_Empty 0
   \<and> ValidateTimeRange (ex_op ''op2'' ''bob'' 0 OperationStateAccepted)
       = Inr (ex_op ''op2'' ''bob'' 0 OperationStateAccepted)
   \<and> searchOperations (after_statement (ex_handle ex_stored 6))
        (conflict_volume (ex_op ''op2'' ''bob'' 0 OperationStateAccepted))
       = (Inr [scan ex_row1], ex_handle ex_stored 6)
   \<and> OVN (scan ex_row1) = Token 5 ''op1''
   \<and> UpsertOperation (ex_handle ex_stored 6)
        (ex_op ''op2'' ''bob'' 0 OperationStateAccepted) []
       = (Inl (ErrMissingOVNs ''op1''), ex_handle ex_stored 6)
   \<and> UpsertOperation (ex_handle ex_stored 6)
        (ex_op ''op2'' ''bob'' 0 OperationStateAccepted) [Token 5 ''op1'']
       = pushOperation (ex_handle ex_stored 6) (ex_op ''op2'' ''bob'' 0 OperationStateAccepted)
   \<and> UpsertOperation (ex_handle ex_stored 6)
        (ex_op ''op2'' ''bob'' 0 OperationStateAccepted) ([Token 5 ''op1''] @ [Token 9 ''op9''])
       = UpsertOperation (ex_handle ex_stored 6)
        (ex_op ''op2'' ''bob'' 0 OperationStateAccepted) [Token 5 ''op1'']
   \<and> UpsertOperation (ex_handle ex_stored 6)
        (ex_op ''op2'' ''bob'' 0 (OperationStateOther ''Ended'')) []
       = pushOperation (ex_handle ex_stored 6)
           (ex_op ''op2'' ''bob'' 0 (OperationStateOther ''Ended''))"
proof -
  let ?q = "ex_handle ex_stored 6"
  let ?op = "ex_op ''op2'' ''bob'' 0"
  have h: "\<not> next_fails ?q" by simp
  have pk: "primary_keys (tables ?q)" by (simp add: ex_primary_keys)
  have f: "ID (?op st) = ''op2''" "Version (?op st) = 0" "State (?op st) = st" for st
    by (simp_all add: ex_op_def)
  have none: "filter (\<lambda>r. o_id r = ''op2'') (scd_operations (tables ?q)) = []"
    by (simp add: ex_stored_def ex_row1_def)
  have e: "Version_Empty 0" by (simp add: Version_Empty_def)
  have reach: "(filter (\<lambda>r. o_id r = ID (?op st)) (scd_operations (tables ?q)) = []
            \<and> Version_Empty (Version (?op st)))
         \<or> (\<exists>row \<in> set (scd_operations (tables ?q)). o_id row = ID (?op st)
              \<and> \<not> Version_Empty (Version (?op st))
              \<and> Version_Matches (Version (?op st)) (o_version row)
              \<and> o_owner row = Owner (?op st))" for st
    using none e by (simp add: f)
  have val: "ValidateTimeRange (?op st) = Inr (?op st)" for st
    by (simp add: ValidateTimeRange_def ex_op_def)
  have search: "searchOperations (after_statement ?q) (conflict_volume (?op st))
       = (Inr [scan ex_row1], ?q)" for st
    by (simp add: run_conflict)
  have ovn: "OVN (scan ex_row1) = Token 5 ''op1''"
    by (simp add: scan_def ex_row1_def NewOVNFromTime_def)
  have st: "State (?op OperationStateAccepted) = OperationStateAccepted
      \<or> State (?op OperationStateAccepted) = OperationStateActivated"
    by (simp add: f)
  note active = conflict_acknowledgement [where q = "?q"
      and operation = "?op OperationStateAccepted"
      and found = "[scan ex_row1]" and searched = "?q",
      OF h pk reach val, THEN conjunct1, rule_format, OF conjI [OF st search]]
  note other = conflict_acknowledgement [where q = "?q"
      and operation = "?op (OperationStateOther ''Ended'')" and key = "[]",
      OF h pk reach val, THEN conjunct2, rule_format]
  have a: "UpsertOperation ?q (?op OperationStateAccepted) []
       = (Inl (ErrMissingOVNs ''op1''), ?q)"
    using active [where key = "[]", THEN conjunct2, THEN conjunct2, THEN conjunct2,
        THEN conjunct1, rule_format, of "scan ex_row1" "[]"]
    by (simp add: scan_def ex_row1_def)
  have b: "UpsertOperation ?q (?op OperationStateAccepted) [Token 5 ''op1'']
       = pushOperation ?q (?op OperationStateAccepted)"
    using active [where key = "[Token 5 ''op1'']", THEN conjunct2, THEN conjunct2,
        THEN conjunct1]
    by (simp add: ovn)
  have c: "UpsertOperation ?q (?op OperationStateAccepted) ([Token 5 ''op1''] @ [Token 9 ''op9''])
       = UpsertOperation ?q (?op OperationStateAccepted) [Token 5 ''op1'']"
    using active [where key = "[Token 5 ''op1'']" and extra = "[Token 9 ''op9'']",
        THEN conjunct2, THEN conjunct2, THEN conjunct2, THEN conjunct2]
    by (simp add: ovn)
  have d: "UpsertOperation ?q (?op (OperationStateOther ''Ended'')) []
       = pushOperation ?q (?op (OperationStateOther ''Ended''))"
    using other by (simp add: f)
  from h pk none e val [of OperationStateAccepted] search [of OperationStateAccepted] ovn a b c d
  show ?thesis by simp
qed

subsection \<open>Write paths in a transaction\<close>

text \<open>
  C2. A write path never hides a failed statement: when the store fails any statement
  that \<open>UpsertOperation\<close> or \<open>DeleteOperation\<close> sends, the call returns an error. Run
  as a transaction, a call that returns an error leaves the committed tables as they
  were before it, whatever its statements had written; a call that returns a result
  commits the tables it left.
\<close>

theorem write_paths_atomic:
  "(UpsertOperation \<lparr>tables = committed, transaction_timestamp = now, outcomes = script\<rparr>
        operation key = (res, q') \<longrightarrow>
      (\<not> all_answered script (outcomes q') \<longrightarrow> (\<exists>err. res = Inl err))
      \<and> ((\<exists>err. res = Inl err) \<longrightarrow>
           Transact committed now script (\<lambda>q. UpsertOperation q operation key)
             = (res, committed))
      \<and> ((\<exists>r. res = Inr r) \<longrightarrow>
           Transact committed now script (\<lambda>q. UpsertOperation q operation key)
             = (res, tables q')))
   \<and> (DeleteOperation \<lparr>tables = committed, transaction_timestamp = now, outcomes = script\<rparr>
        i owner = (res', q'') \<longrightarrow>
      (\<not> all_answered script (outcomes q'') \<longrightarrow> (\<exists>err. res' = Inl err))
      \<and> ((\<exists>err. res' = Inl err) \<longrightarrow>
           Transact committed now script (\<lambda>q. DeleteOperation q i owner)
             = (res', committed))
      \<and> ((\<exists>r. res' = Inr r) \<longrightarrow>
           Transact committed now script (\<lambda>q. DeleteOperation q i owner)
             = (res', tables q'')))"
proof -
  let ?q = "\<lparr>tables = committed, transaction_timestamp = now, outcomes = script\<rparr>"
  have up: "\<exists>err. res = Inl err"
    if "UpsertOperation ?q operation key = (res, q')" "\<not> all_answered script (outcomes q')"
  proof (cases res)
    case (Inl err)
    then show ?thesis by simp
  next
    case (Inr r)
    with that(1) have "UpsertOperation ?q operation key = (Inr r, q')" by simp
    then have "all_answered (outcomes ?q) (outcomes q')"
      by (rule UpsertOperation_answered)
    with that(2) show ?thesis by simp
  qed
  have del: "\<exists>err. res' = Inl err"
    if "DeleteOperation ?q i owner = (res', q'')" "\<not> all_answered script (outcomes q'')"
  proof (cases res')
    case (Inl err)
    then show ?thesis by simp
  next
    case (Inr r)
    with that(1) have "DeleteOperation ?q i owner = (Inr r, q'')" by simp
    then have "all_answered (outcomes ?q) (outcomes q'')"
      by (rule DeleteOperation_answered)
    with that(2) show ?thesis by simp
  qed
  have tu: "Transact committed now script (\<lambda>q. UpsertOperation q operation key)
      = (case res of Inl err \<Rightarrow> (res, committed) | Inr r \<Rightarrow> (res, tables q'))"
    if "UpsertOperation ?q operation key = (res, q')"
    using that by (simp add: Transact_def split: sum.splits)
  have td: "Transact committed now script (\<lambda>q. DeleteOperation q i owner)
      = (case res' of Inl err \<Rightarrow> (res', committed) | Inr r \<Rightarrow> (res', tables q''))"
    if "DeleteOperation ?q i owner = (res', q'')"
    using that by (simp add: Transact_def split: sum.splits)
  from up del tu td show ?thesis by (auto split: sum.splits)
qed

text \<open>In the scenario the store fails the first Cell Index upsert of a creation, and the
  Subscription delete of a deletion. The handle of the creation then holds the row of
  \<open>op1\<close> and the handle of the deletion has lost it; both calls return the error, and
  the committed tables are unchanged.\<close>

theorem write_paths_atomic_witness:
  "UpsertOperation \<lparr>tables = ex_empty, transaction_timestamp = 5,
                    outcomes = [False, False, False, True]\<rparr>
       (ex_op ''op1'' ''alice'' 0 OperationStateAccepted) []
     = (Inl StoreError, ex_handle (ex_empty\<lparr>scd_operations := [ex_row1]\<rparr>) 5)
   \<and> \<not> all_answered [False, False, False, True]
         (outcomes (ex_handle (ex_empty\<lparr>scd_operations := [ex_row1]\<rparr>) 5))
   \<and> Transact ex_empty 5 [False, False, False, True]
          (\<lambda>q. UpsertOperation q (ex_op ''op1'' ''alice'' 0 OperationStateAccepted) [])
     = (Inl StoreError, ex_empty)
   \<and> DeleteOperation \<lparr>tables = ex_stored, transaction_timestamp = 6,
                    outcomes = [False, False, False, False, True]\<rparr> ''op1'' ''alice''
     = (Inl StoreError, ex_handle (ex_deleted\<lparr>scd_subscriptions := [ex_s1]\<rparr>) 6)
   \<and> \<not> all_answered [False, False, False, False, True]
         (outcomes (ex_handle (ex_deleted\<lparr>scd_subscriptions := [ex_s1]\<rparr>) 6))
   \<and> Transact ex_stored 6 [False, False, False, False, True]
          (\<lambda>q. DeleteOperation q ''op1'' ''alice'')
     = (Inl StoreError, ex_stored)"
proof -
  have n: "\<not> all_answered [False, False, False, True]
         (outcomes (ex_handle (ex_empty\<lparr>scd_operations := [ex_row1]\<rparr>) 5))"
    "\<not> all_answered [False, False, False, False, True]
         (outcomes (ex_handle (ex_deleted\<lparr>scd_subscriptions := [ex_s1]\<rparr>) 6))"
    by (simp_all add: all_answered_def)
  note u = write_paths_atomic [THEN conjunct1, rule_format, OF run_create_fault,
      THEN conjunct2, THEN conjunct1, rule_format]
  note d = write_paths_atomic [THEN conjunct2, rule_format, OF run_delete_fault,
      THEN conjunct2, THEN conjunct1, rule_format]
  have "Transact ex_empty 5 [False, False, False, True]
          (\<lambda>q. UpsertOperation q (ex_op ''op1'' ''alice'' 0 OperationStateAccepted) [])
     = (Inl StoreError, ex_empty)"
    by (rule u) simp
  moreover have "Transact ex_stored 6 [False, False, False, False, True]
          (\<lambda>q. DeleteOperation q ''op1'' ''alice'')
     = (Inl StoreError, ex_stored)"
    by (rule d) simp
  ultimately show ?thesis using n run_create_fault run_delete_fault by simp
qed

subsection \<open>No Cell Index rows after a delete\<close>

text \<open>
  C3. After a successful \<open>DeleteOperation\<close> of an ID, no row of \<open>scd_cells_operations\<close>
  has that ID as its \<open>operation_id\<close> (and no row of \<open>scd_operations\<close> has it as its id).
\<close>

theorem delete_removes_cell_index:
  assumes "DeleteOperation q i owner = (Inr (old, subscriptions), q')"
  shows "filter (\<lambda>c. operation_id c = i) (scd_cells_operations (tables q')) = []
       \<and> filter (\<lambda>r. o_id r = i) (scd_operations (tables q')) = []"
proof -
  from DeleteOperation_Inr [OF assms] obtain row where
    row: "filter (\<lambda>r. o_id r = i) (scd_operations (tables q)) = [row]" "o_owner row = owner"
    and t': "tables q' = snd (deleteImplicitSubscriptionQuery (o_subscription_id row) owner
                      (transaction_timestamp q)
                      (snd (deleteQuery i owner (transaction_timestamp q) (tables q))))"
    by blast
  show ?thesis
    by (simp add: t' deleteImplicitSubscriptionQuery_tables deleteQuery_tables [OF row])
qed

text \<open>In the scenario \<open>op1\<close> has two rows in the Cell Index of \<open>ex_shared\<close> and none after
  its deletion.\<close>

theorem delete_removes_cell_index_witness:
  "DeleteOperation (ex_handle ex_shared 7) ''op1'' ''alice''
     = (Inr (ex_area1, [ex_s1]), ex_handle ex_after_shared 7)
   \<and> filter (\<lambda>c. operation_id c = ''op1'') (scd_cells_operations ex_shared)
       = [\<lparr>cell_id = 10, cell_level = 30, operation_id = ''op1''\<rparr>,
          \<lparr>cell_id = 11, cell_level = 30, operation_id = ''op1''\<rparr>]
   \<and> filter (\<lambda>c. operation_id c = ''op1'') (scd_cells_operations ex_after_shared) = []
   \<and> filter (\<lambda>r. o_id r = ''op1'') (scd_operations ex_after_shared) = []"
  using delete_removes_cell_index [OF run_delete_shared'] run_delete_shared'
  by (simp add: ex_shared_def)

subsection \<open>Ownership\<close>

text \<open>
  C4, as stated, fails for an upsert: \<open>bob\<close> sends \<open>op1\<close>, which \<open>alice\<close> owns at
  version 1, with version 7; the call fails with VersionMismatch, not with
  PermissionDenied.
\<close>

theorem ownership_gating_counterexample:
  "ex_row1 \<in> set (scd_operations (tables (ex_handle ex_stored 6)))
   \<and> o_id ex_row1 = ID (ex_op ''op1'' ''bob'' 7 OperationStateAccepted)
   \<and> o_owner ex_row1 \<noteq> Owner (ex_op ''op1'' ''bob'' 7 OperationStateAccepted)
   \<and> fst (UpsertOperation (ex_handle ex_stored 6)
            (ex_op ''op1'' ''bob'' 7 OperationStateAccepted) []) = Inl VersionMismatch
   \<and> fst (UpsertOperation (ex_handle ex_stored 6)
            (ex_op ''op1'' ''bob'' 7 OperationStateAccepted) []) \<noteq> Inl PermissionDenied"
  by (simp add: UpsertOperation_def fetchOperationByID_eq next_fails_def ex_handle_def
      ex_stored_def ex_row1_def ex_op_def scan_def Version_Empty_def Version_Matches_def)

text \<open>
  C4, amended. For a stored Operation and a caller whose Owner differs from the stored
  Owner, when the store answers the lookup: \<open>DeleteOperation\<close> fails with
  PermissionDenied; \<open>UpsertOperation\<close> fails with AlreadyExists when the supplied
  Version is empty, with VersionMismatch when it is not empty and does not match the
  stored Version, and with PermissionDenied when it matches. In every case the tables
  are unchanged.
\<close>

theorem ownership_gating:
  assumes "\<not> next_fails q" and "primary_keys (tables q)"
    and "row \<in> set (scd_operations (tables q))" and "o_owner row \<noteq> owner"
  shows "DeleteOperation q (o_id row) owner = (Inl PermissionDenied, after_statement q)
       \<and> tables (snd (DeleteOperation q (o_id row) owner)) = tables q
       \<and> (ID operation = o_id row \<and> Owner operation = owner \<longrightarrow>
            fst (UpsertOperation q operation key) =
              Inl (if Version_Empty (Version operation) then AlreadyExists
                   else if \<not> Version_Matches (Version operation) (o_version row)
                     then VersionMismatch
                   else PermissionDenied)
            \<and> tables (snd (UpsertOperation q operation key)) = tables q)"
proof -
  have one: "filter (\<lambda>r. o_id r = o_id row) (scd_operations (tables q)) = [row]"
    using filter_key_distinct [of o_id "scd_operations (tables q)" row] assms(2,3)
    by (simp add: primary_keys_def)
  have del: "DeleteOperation q (o_id row) owner = (Inl PermissionDenied, after_statement q)"
    using assms(1,4) by (simp add: DeleteOperation_def fetchOperationByID_eq one scan_def)
  have ups: "fst (UpsertOperation q operation key) =
              Inl (if Version_Empty (Version operation) then AlreadyExists
                   else if \<not> Version_Matches (Version operation) (o_version row)
                     then VersionMismatch
                   else PermissionDenied)
            \<and> tables (snd (UpsertOperation q operation key)) = tables q"
    if "ID operation = o_id row" "Owner operation = owner"
    using assms(1,4) that by (simp add: UpsertOperation_def fetchOperationByID_eq one scan_def)
  from del ups show ?thesis by simp
qed

text \<open>In the scenario \<open>bob\<close> deletes \<open>op1\<close>, and sends it with the stored version 1: both
  calls fail with PermissionDenied and leave the tables as they were.\<close>

theorem ownership_gating_witness:
  "\<not> next_fails (ex_handle ex_stored 6) \<and> primary_keys (tables (ex_handle ex_stored 6))
   \<and> ex_row1 \<in> set (scd_operations (tables (ex_handle ex_stored 6)))
   \<and> o_owner ex_row1 \<noteq> ''bob''
   \<and> ID (ex_op ''op1'' ''bob'' 1 OperationStateAccepted) = o_id ex_row1
   \<and> Owner (ex_op ''op1'' ''bob'' 1 OperationStateAccepted) = ''bob''
   \<and> DeleteOperation (ex_handle ex_stored 6) ''op1'' ''bob''
       = (Inl PermissionDenied, after_statement (ex_handle ex_stored 6))
   \<and> tables (snd (DeleteOperation (ex_handle ex_stored 6) ''op1'' ''bob'')) = ex_stored
   \<and> fst (UpsertOperation (ex_handle ex_stored 6)
            (ex_op ''op1'' ''bob'' 1 OperationStateAccepted) []) = Inl PermissionDenied
   \<and> tables (snd (UpsertOperation (ex_handle ex_stored 6)
            (ex_op ''op1'' ''bob'' 1 OperationStateAccepted) [])) = ex_stored"
proof -
  have h: "\<not> next_fails (ex_handle ex_stored 6)"
    by (simp add: next_fails_def ex_handle_def)
  have pk: "primary_keys (tables (ex_handle ex_stored 6))"
    by (simp add: primary_keys_def ex_handle_def ex_stored_def)
  have mem: "ex_row1 \<in> set (scd_operations (tables (ex_handle ex_stored 6)))"
    by (simp add: ex_handle_def ex_stored_def)
  have own: "o_owner ex_row1 \<noteq> ''bob''" by (simp add: ex_row1_def)
  have i: "ID (ex_op ''op1'' ''bob'' 1 OperationStateAccepted) = o_id ex_row1"
    "Owner (ex_op ''op1'' ''bob'' 1 OperationStateAccepted) = ''bob''"
    "o_id ex_row1 = ''op1''"
    "\<not> Version_Empty (Version (ex_op ''op1'' ''bob'' 1 OperationStateAccepted))"
    "Version_Matches (Version (ex_op ''op1'' ''bob'' 1 OperationStateAccepted)) (o_version ex_row1)"
    by (simp_all add: ex_op_def ex_row1_def Version_Empty_def Version_Matches_def)
  have t: "tables (ex_handle ex_stored 6) = ex_stored" by (simp add: ex_handle_def)
  from ownership_gating [OF h pk mem own,
      of "ex_op ''op1'' ''bob'' 1 OperationStateAccepted" "[]"] i
  show ?thesis using h pk mem own by (simp add: t)
qed

subsection \<open>The version checks of an upsert\<close>

text \<open>
  C5. When the store answers the lookup of \<open>UpsertOperation\<close>: with no row for the
  ID and a non-empty Version the call fails with NotFound; with a row for the ID and
  an empty Version it fails with AlreadyExists; with a row and a non-empty Version
  that does not match the stored one it fails with VersionMismatch. In each case the
  tables are as they were: nothing is written.
\<close>

theorem upsert_version_checks:
  assumes "\<not> next_fails q" and "primary_keys (tables q)"
  shows "(filter (\<lambda>r. o_id r = ID operation) (scd_operations (tables q)) = []
           \<and> \<not> Version_Empty (Version operation)
          \<longrightarrow> fst (UpsertOperation q operation key) = Inl NotFound
              \<and> tables (snd (UpsertOperation q operation key)) = tables q)
       \<and> (\<forall>row \<in> set (scd_operations (tables q)). o_id row = ID operation \<longrightarrow>
            (Version_Empty (Version operation)
               \<longrightarrow> fst (UpsertOperation q operation key) = Inl AlreadyExists
                   \<and> tables (snd (UpsertOperation q operation key)) = tables q)
          \<and> (\<not> Version_Empty (Version operation)
               \<and> \<not> Version_Matches (Version operation) (o_version row)
               \<longrightarrow> fst (UpsertOperation q operation key) = Inl VersionMismatch
                   \<and> tables (snd (UpsertOperation q operation key)) = tables q))"
proof -
  have one: "filter (\<lambda>r. o_id r = ID operation) (scd_operations (tables q)) = [row]"
    if "row \<in> set (scd_operations (tables q))" "o_id row = ID operation" for row
    using filter_key_distinct [of o_id "scd_operations (tables q)" row] that assms(2)
    by (simp add: primary_keys_def)
  show ?thesis
    using assms(1)
    by (auto simp: UpsertOperation_def fetchOperationByID_eq one scan_def)
qed

text \<open>The three cases in the scenario: an update of \<open>op1\<close> before it exists, a second
  creation of \<open>op1\<close>, and an update of \<open>op1\<close> that names version 7 when 1 is stored.\<close>

theorem upsert_version_checks_witness:
  "\<not> next_fails (ex_handle ex_empty 6) \<and> primary_keys (tables (ex_handle ex_empty 6))
   \<and> \<not> next_fails (ex_handle ex_stored 6) \<and> primary_keys (tables (ex_handle ex_stored 6))
   \<and> ex_row1 \<in> set (scd_operations (tables (ex_handle ex_stored 6)))
   \<and> \<not> Version_Empty 1 \<and> Version_Empty 0 \<and> \<not> Version_Matches 7 (o_version ex_row1)
   \<and> fst (UpsertOperation (ex_handle ex_empty 6)
            (ex_op ''op1'' ''alice'' 1 OperationStateAccepted) []) = Inl NotFound
   \<and> tables (snd (UpsertOperation (ex_handle ex_empty 6)
            (ex_op ''op1'' ''alice'' 1 OperationStateAccepted) [])) = ex_empty
   \<and> fst (UpsertOperation (ex_handle ex_stored 6)
            (ex_op ''op1'' ''alice'' 0 OperationStateAccepted) []) = Inl AlreadyExists
   \<and> tables (snd (UpsertOperation (ex_handle ex_stored 6)
            (ex_op ''op1'' ''alice'' 0 OperationStateAccepted) [])) = ex_stored
   \<and> fst (UpsertOperation (ex_handle ex_stored 6)
            (ex_op ''op1'' ''alice'' 7 OperationStateAccepted) []) = Inl VersionMismatch
   \<and> tables (snd (UpsertOperation (ex_handle ex_stored 6)
            (ex_op ''op1'' ''alice'' 7 OperationStateAccepted) [])) = ex_stored"
proof -
  have h: "\<not> next_fails (ex_handle t now)" for t now
    by (simp add: next_fails_def ex_handle_def)
  have pk0: "primary_keys (tables (ex_handle ex_empty 6))"
    by (simp add: primary_keys_def ex_handle_def ex_empty_def)
  have pk1: "primary_keys (tables (ex_handle ex_stored 6))"
    by (simp add: primary_keys_def ex_handle_def ex_stored_def)
  have t: "tables (ex_handle t now) = t" for t now
    by (simp add: ex_handle_def)
  have mem: "ex_row1 \<in> set (scd_operations (tables (ex_handle ex_stored 6)))"
    by (simp add: ex_handle_def ex_stored_def)
  have v: "\<not> Version_Empty 1" "Version_Empty 0" "\<not> Version_Matches 7 (o_version ex_row1)"
    by (simp_all add: Version_Empty_def Version_Matches_def ex_row1_def)
  have none: "filter (\<lambda>r. o_id r = ''op1'') (scd_operations (tables (ex_handle ex_empty 6))) = []"
    by (simp add: ex_handle_def ex_empty_def)
  have i: "ID (ex_op ''op1'' ''alice'' n st) = ''op1''" "Version (ex_op ''op1'' ''alice'' n st) = n"
    "o_id ex_row1 = ''op1''" for n st
    by (simp_all add: ex_op_def ex_row1_def)
  note a = upsert_version_checks [OF h pk0, THEN conjunct1, rule_format,
      of "ex_op ''op1'' ''alice'' 1 OperationStateAccepted" "[]"]
  note b = upsert_version_checks [OF h pk1, THEN conjunct2, rule_format, OF mem,
      THEN conjunct1, rule_format,
      of "ex_op ''op1'' ''alice'' 0 OperationStateAccepted" "[]"]
  note c = upsert_version_checks [OF h pk1, THEN conjunct2, rule_format, OF mem,
      THEN conjunct2, rule_format,
      of "ex_op ''op1'' ''alice'' 7 OperationStateAccepted" "[]"]
  have "fst (UpsertOperation (ex_handle ex_empty 6)
            (ex_op ''op1'' ''alice'' 1 OperationStateAccepted) []) = Inl NotFound
     \<and> tables (snd (UpsertOperation (ex_handle ex_empty 6)
            (ex_op ''op1'' ''alice'' 1 OperationStateAccepted) [])) = ex_empty"
    using a none v by (simp add: i t)
  moreover have "fst (UpsertOperation (ex_handle ex_stored 6)
            (ex_op ''op1'' ''alice'' 0 OperationStateAccepted) []) = Inl AlreadyExists
     \<and> tables (snd (UpsertOperation (ex_handle ex_stored 6)
            (ex_op ''op1'' ''alice'' 0 OperationStateAccepted) [])) = ex_stored"
    using b v by (simp add: i t)
  moreover have "fst (UpsertOperation (ex_handle ex_stored 6)
            (ex_op ''op1'' ''alice'' 7 OperationStateAccepted) []) = Inl VersionMismatch
     \<and> tables (snd (UpsertOperation (ex_handle ex_stored 6)
            (ex_op ''op1'' ''alice'' 7 OperationStateAccepted) [])) = ex_stored"
    using c v by (simp add: i t Version_Empty_def)
  ultimately show ?thesis using h pk0 pk1 mem v by simp
qed

subsection \<open>The version counts the writes\<close>

text \<open>
  C6. A successful \<open>UpsertOperation\<close> returns, and stores for the ID, the Version that
  was stored before plus 1, and 1 when the ID had no row. Hence a sequence of
  successful upserts of one ID that starts without a row returns the Versions
  1, 2, 3, and so on, one for each upsert.
\<close>

theorem upsert_increments_version:
  "(UpsertOperation q operation key = (Inr (area, subscribers), q') \<longrightarrow>
      Version area = COALESCE (stored_version (tables q) (ID operation)) 0 + 1
      \<and> stored_version (tables q') (ID operation) = Some (Version area))
   \<and> (upsert_all q calls = (Inr areas, q'') \<and> (\<forall>c \<in> set calls. ID (fst (snd c)) = i)
        \<and> stored_version (tables q) i = None \<longrightarrow>
      map Version areas = map int [1..<Suc (length calls)])"
proof -
  have seq: "map Version areas = map int [1..<Suc (length calls)]"
    if "upsert_all q calls = (Inr areas, q'')" "\<forall>c \<in> set calls. ID (fst (snd c)) = i"
      "stored_version (tables q) i = None"
  proof -
    have "map int [1..<Suc (length calls)] = map int (map Suc [0..<length calls])"
      by (simp only: map_Suc_upt One_nat_def)
    also have "\<dots> = map (\<lambda>k. 1 + int k) [0..<length calls]"
      by (simp add: comp_def)
    finally show ?thesis
      using upsert_all_versions [OF that(1,2)] that(3) by (simp add: COALESCE_def)
  qed
  from UpsertOperation_version [of q operation key area subscribers q'] seq
  show ?thesis by blast
qed

text \<open>In the scenario the update of \<open>op1\<close> takes the stored version from 1 to 2, and the
  creation followed by the update returns the versions 1 and 2.\<close>

theorem upsert_increments_version_witness:
  "UpsertOperation (ex_handle ex_stored 6) (ex_op ''op1'' ''alice'' 1 OperationStateAccepted)
       [Token 5 ''op1'']
     = (Inr (ex_area2, [ex_s1]), ex_handle ex_updated 6)
   \<and> stored_version ex_stored ''op1'' = Some 1
   \<and> Version ex_area2 = 2
   \<and> stored_version ex_updated ''op1'' = Some 2
   \<and> upsert_all (ex_handle ex_empty 0)
        [(5, ex_op ''op1'' ''alice'' 0 OperationStateAccepted, []),
         (6, ex_op ''op1'' ''alice'' 1 OperationStateAccepted, [Token 5 ''op1''])]
       = (Inr [ex_area1, ex_area2], ex_handle ex_updated 6)
   \<and> stored_version ex_empty ''op1'' = None
   \<and> map Version [ex_area1, ex_area2] = [1, 2]"
proof -
  have i: "ID (ex_op ''op1'' ''alice'' n st) = ''op1''" for n st by (simp add: ex_op_def)
  have s: "stored_version ex_stored ''op1'' = Some 1" "stored_version ex_empty ''op1'' = None"
    by (simp_all add: stored_version_def ex_stored_def ex_empty_def ex_row1_def)
  note step = upsert_increments_version [THEN conjunct1, rule_format, OF run_update]
  note seq = upsert_increments_version [THEN conjunct2, rule_format, OF conjI, OF run_seq conjI,
      of "''op1''"]
  have "Version ex_area2 = 2" "stored_version ex_updated ''op1'' = Some 2"
    using step by (simp_all add: i s COALESCE_def)
  moreover have "map Version [ex_area1, ex_area2] = [1, 2]"
    using seq by (simp add: i s)
  ultimately show ?thesis using run_update run_seq s by simp
qed

subsection \<open>The Cell Index after an upsert\<close>

text \<open>
  C7. After a successful \<open>UpsertOperation\<close> of an Operation with cells \<open>C\<close>, the rows
  of \<open>scd_cells_operations\<close> with its ID are exactly one row, with its level, for each
  cell of \<open>C\<close>: rows of that ID for other cells, whatever wrote them, are gone. The rows
  of other Operations are as before, and the returned Operation carries \<open>C\<close>.
\<close>

theorem upsert_replaces_cell_index:
  assumes "UpsertOperation q operation key = (Inr (area, subscribers), q')"
  shows "set (filter (\<lambda>r. operation_id r = ID operation) (scd_cells_operations (tables q')))
           = (\<lambda>c. \<lparr>cell_id = c, cell_level = Level c, operation_id = ID operation\<rparr>)
               ` set (Cells operation)
       \<and> set (filter (\<lambda>r. operation_id r \<noteq> ID operation) (scd_cells_operations (tables q')))
           = set (filter (\<lambda>r. operation_id r \<noteq> ID operation) (scd_cells_operations (tables q)))
       \<and> Cells area = Cells operation"
proof -
  from UpsertOperation_Inr [OF assms] obtain q2 where
    push: "pushOperation q2 operation = (Inr (area, subscribers), q')"
    and t2: "tables q2 = tables q" by blast
  from pushOperation_Inr [OF push] obtain row where
    area: "area = (scan row)\<lparr>Cells := Cells operation\<rparr>"
    and cells: "set (scd_cells_operations (tables q')) =
               {x \<in> set (scd_cells_operations (tables q2)). operation_id x \<noteq> ID operation}
               \<union> (\<lambda>c. \<lparr>cell_id = c, cell_level = Level c, operation_id = ID operation\<rparr>)
                   ` set (Cells operation)"
    by blast
  show ?thesis
    by (auto simp: cells t2 area)
qed

text \<open>In the scenario \<open>op1\<close> moves from the cells 10 and 11 to 11 and 12: the row of cell
  10 is gone, the row of cell 12 is there.\<close>

theorem upsert_replaces_cell_index_witness:
  "UpsertOperation (ex_handle ex_stored 6)
       ((ex_op ''op1'' ''alice'' 1 OperationStateAccepted)\<lparr>Cells := [11, 12]\<rparr>)
       [Token 5 ''op1'']
     = (Inr (ex_area2\<lparr>Cells := [11, 12]\<rparr>, []), ex_handle ex_recelled 6)
   \<and> scd_cells_operations ex_stored
       = [\<lparr>cell_id = 10, cell_level = 30, operation_id = ''op1''\<rparr>,
          \<lparr>cell_id = 11, cell_level = 30, operation_id = ''op1''\<rparr>]
   \<and> set (filter (\<lambda>r. operation_id r = ''op1'') (scd_cells_operations ex_recelled))
       = {\<lparr>cell_id = 11, cell_level = Level 11, operation_id = ''op1''\<rparr>,
          \<lparr>cell_id = 12, cell_level = Level 12, operation_id = ''op1''\<rparr>}"
proof -
  have a: "ID ((ex_op ''op1'' ''alice'' 1 OperationStateAccepted)\<lparr>Cells := [11, 12]\<rparr>) = ''op1''"
    "Cells ((ex_op ''op1'' ''alice'' 1 OperationStateAccepted)\<lparr>Cells := [11, 12]\<rparr>) = [11, 12]"
    by (simp_all add: ex_op_def)
  from upsert_replaces_cell_index [OF run_recell, THEN conjunct1]
  have "set (filter (\<lambda>r. operation_id r = ''op1'') (scd_cells_operations ex_recelled))
       = {\<lparr>cell_id = 11, cell_level = Level 11, operation_id = ''op1''\<rparr>,
          \<lparr>cell_id = 12, cell_level = Level 12, operation_id = ''op1''\<rparr>}"
    unfolding a by simp
  moreover have "scd_cells_operations ex_stored
       = [\<lparr>cell_id = 10, cell_level = 30, operation_id = ''op1''\<rparr>,
          \<lparr>cell_id = 11, cell_level = 30, operation_id = ''op1''\<rparr>]"
    by (simp add: ex_stored_def)
  ultimately show ?thesis using run_recell by simp
qed

subsection \<open>What a search returns\<close>

text \<open>
  C8. \<open>searchOperations\<close> returns BadRequest, without a statement, when the volume has
  no spatial volume or no footprint, or when its covering fails to compute or is empty.
  Otherwise, when the store answers the query on keyed tables, it returns the
  Operations of exactly the rows that \<open>intersects\<close> describes (a Cell Index row in the
  covering; altitude upper at least the query's lower, altitude lower at most the
  query's upper, end at least the query's start, start at most the query's end, each
  also met when one of its two sides is unbounded), every Operation once.
\<close>

theorem search_matches:
  "(bad_footprint v4d \<longrightarrow> searchOperations q v4d = (Inl BadRequest, q))
   \<and> (SpatialVolume v4d = Some sv \<and> Footprint sv = Some (Inr cells) \<and> cells \<noteq> []
        \<and> \<not> next_fails q \<and> primary_keys (tables q) \<longrightarrow>
      (\<exists>found. searchOperations q v4d = (Inr found, after_statement q)
         \<and> found = map scan (filter (intersects (tables q) cells (AltitudeLo sv) (AltitudeHi sv)
                                       (v_StartTime v4d) (v_EndTime v4d))
                               (scd_operations (tables q)))
         \<and> distinct found \<and> distinct (map ID found)))"
proof -
  have bad: "searchOperations q v4d = (Inl BadRequest, q)" if "bad_footprint v4d"
    using that
    by (auto simp: bad_footprint_def searchOperations_def split: option.splits sum.splits)
  have good: "\<exists>found. searchOperations q v4d = (Inr found, after_statement q)
         \<and> found = map scan (filter (intersects (tables q) cells (AltitudeLo sv) (AltitudeHi sv)
                                       (v_StartTime v4d) (v_EndTime v4d))
                               (scd_operations (tables q)))
         \<and> distinct found \<and> distinct (map ID found)"
    if "SpatialVolume v4d = Some sv" "Footprint sv = Some (Inr cells)" "cells \<noteq> []"
      "\<not> next_fails q" "primary_keys (tables q)"
  proof -
    let ?found = "map scan (filter (intersects (tables q) cells (AltitudeLo sv) (AltitudeHi sv)
                                       (v_StartTime v4d) (v_EndTime v4d))
                               (scd_operations (tables q)))"
    have "distinct (map ID ?found)" by (rule distinct_found(2) [OF that(5)])
    moreover from this have "distinct ?found" by (metis distinct_map)
    ultimately show ?thesis
      using searchOperations_found [OF that(1-4)] by simp
  qed
  from bad good show ?thesis by blast
qed

text \<open>In the scenario a search of \<open>ex_shared\<close> over the cells 10 and 11 returns \<open>op1\<close>,
  which has both cells, once, and \<open>op2\<close>; over cell 10 it returns \<open>op1\<close> alone; with an
  empty covering it returns BadRequest.\<close>

theorem search_matches_witness:
  "bad_footprint (ex_volume [])
   \<and> searchOperations (ex_handle ex_shared 8) (ex_volume []) = (Inl BadRequest, ex_handle ex_shared 8)
   \<and> SpatialVolume (ex_volume [10, 11]) = Some \<lparr>AltitudeHi = Some 50, AltitudeLo = Some 20,
                            Footprint = Some (Inr [10, 11])\<rparr>
   \<and> \<not> next_fails (ex_handle ex_shared 8) \<and> primary_keys (tables (ex_handle ex_shared 8))
   \<and> searchOperations (ex_handle ex_shared 8) (ex_volume [10, 11])
       = (Inr [scan ex_row1, scan ex_row2], ex_handle ex_shared 8)
   \<and> searchOperations (ex_handle ex_shared 8) (ex_volume [10])
       = (Inr [scan ex_row1], ex_handle ex_shared 8)"
proof -
  let ?sv = "\<lambda>cells. \<lparr>AltitudeHi = Some 50, AltitudeLo = Some 20, Footprint = Some (Inr cells)\<rparr>"
  have v: "SpatialVolume (ex_volume cells) = Some (?sv cells)"
    "v_StartTime (ex_volume cells) = Some 150" "v_EndTime (ex_volume cells) = None" for cells
    by (simp_all add: ex_volume_def)
  have bad: "bad_footprint (ex_volume [])" by (simp add: bad_footprint_def ex_volume_def)
  have pk: "primary_keys (tables (ex_handle ex_shared 8))" by (simp add: ex_primary_keys)
  have rows: "filter (intersects ex_shared [10, 11] (Some 20) (Some 50) (Some 150) None)
                (scd_operations ex_shared) = [ex_row1, ex_row2]"
    "filter (intersects ex_shared [10] (Some 20) (Some 50) (Some 150) None)
                (scd_operations ex_shared) = [ex_row1]"
    by (simp_all add: intersects_def ex_shared_def ex_row1_def ex_row2_def)
  note b = search_matches [THEN conjunct1, rule_format, OF bad, of "ex_handle ex_shared 8"]
  note g = search_matches [THEN conjunct2, rule_format, OF conjI, OF v(1) conjI, OF _ conjI,
      OF _ _ conjI, of _ _ "ex_handle ex_shared 8", OF _ _ _ pk]
  have "searchOperations (ex_handle ex_shared 8) (ex_volume [10, 11])
       = (Inr [scan ex_row1, scan ex_row2], ex_handle ex_shared 8)"
    using g [of "[10, 11]" "[10, 11]"] by (simp add: v rows)
  moreover have "searchOperations (ex_handle ex_shared 8) (ex_volume [10])
       = (Inr [scan ex_row1], ex_handle ex_shared 8)"
    using g [of "[10]" "[10]"] by (simp add: v rows)
  ultimately show ?thesis using bad b pk v(1) by simp
qed

subsection \<open>The implicit Subscription\<close>

text \<open>
  C9. After a successful \<open>DeleteOperation\<close> the row of the Operation is gone, and of the
  rows of \<open>scd_subscriptions\<close> exactly those are gone that have the Operation's
  Subscription ID, are implicit, are owned by the deleting owner, and that no remaining
  Operation references. So when no other Operation referenced the Subscription, no
  implicit Subscription of that ID and owner is left; when another Operation
  references it, the Subscriptions are all as before.
\<close>

theorem delete_implicit_subscription:
  assumes "DeleteOperation q i owner = (Inr (old, subscriptions), q')"
  shows "scd_operations (tables q') = filter (\<lambda>r. o_id r \<noteq> i) (scd_operations (tables q))
       \<and> scd_subscriptions (tables q') =
           filter (\<lambda>s. \<not> (s_id s = SubscriptionID old \<and> s_implicit s \<and> s_owner s = owner
                          \<and> (\<forall>r \<in> set (scd_operations (tables q')).
                                o_subscription_id r \<noteq> SubscriptionID old)))
             (scd_subscriptions (tables q))
       \<and> (\<forall>s \<in> set (scd_subscriptions (tables q)). s_id s = SubscriptionID old \<longrightarrow>
            (s \<notin> set (scd_subscriptions (tables q')) \<longleftrightarrow>
               s_implicit s \<and> s_owner s = owner
               \<and> (\<forall>r \<in> set (scd_operations (tables q')).
                     o_subscription_id r \<noteq> SubscriptionID old)))
       \<and> ((\<forall>r \<in> set (scd_operations (tables q)).
               o_subscription_id r = SubscriptionID old \<longrightarrow> o_id r = i)
            \<longrightarrow> (\<forall>s \<in> set (scd_subscriptions (tables q')).
                   \<not> (s_id s = SubscriptionID old \<and> s_implicit s \<and> s_owner s = owner)))
       \<and> ((\<exists>r \<in> set (scd_operations (tables q)).
               o_subscription_id r = SubscriptionID old \<and> o_id r \<noteq> i)
            \<longrightarrow> scd_subscriptions (tables q') = scd_subscriptions (tables q))"
proof -
  from DeleteOperation_Inr [OF assms] obtain row where
    row: "filter (\<lambda>r. o_id r = i) (scd_operations (tables q)) = [row]" "o_owner row = owner"
    and old: "old = (scan row)\<lparr>Cells := map cell_id (filter (\<lambda>r. operation_id r = i)
                                                     (scd_cells_operations (tables q)))\<rparr>"
    and t': "tables q' = snd (deleteImplicitSubscriptionQuery (o_subscription_id row) owner
                      (transaction_timestamp q)
                      (snd (deleteQuery i owner (transaction_timestamp q) (tables q))))"
    by blast
  have sid: "SubscriptionID old = o_subscription_id row" by (simp add: old scan_def)
  have ops: "scd_operations (tables q') = filter (\<lambda>r. o_id r \<noteq> i) (scd_operations (tables q))"
    by (simp add: t' deleteImplicitSubscriptionQuery_tables deleteQuery_tables [OF row])
  have subs: "scd_subscriptions (tables q') =
           filter (\<lambda>s. \<not> (s_id s = SubscriptionID old \<and> s_implicit s \<and> s_owner s = owner
                          \<and> (\<forall>r \<in> set (scd_operations (tables q')).
                                o_subscription_id r \<noteq> SubscriptionID old)))
             (scd_subscriptions (tables q))"
    unfolding ops
    by (simp add: t' deleteImplicitSubscriptionQuery_tables deleteQuery_tables [OF row] sid
        conj_ac cong: conj_cong)
  have iff: "\<forall>s \<in> set (scd_subscriptions (tables q)). s_id s = SubscriptionID old \<longrightarrow>
            (s \<notin> set (scd_subscriptions (tables q')) \<longleftrightarrow>
               s_implicit s \<and> s_owner s = owner
               \<and> (\<forall>r \<in> set (scd_operations (tables q')).
                     o_subscription_id r \<noteq> SubscriptionID old))"
    unfolding subs by auto
  have last: "\<forall>s \<in> set (scd_subscriptions (tables q')).
                   \<not> (s_id s = SubscriptionID old \<and> s_implicit s \<and> s_owner s = owner)"
    if "\<forall>r \<in> set (scd_operations (tables q)).
               o_subscription_id r = SubscriptionID old \<longrightarrow> o_id r = i"
  proof -
    from that have "\<forall>r \<in> set (scd_operations (tables q')). o_subscription_id r \<noteq> SubscriptionID old"
      unfolding ops by auto
    then show ?thesis unfolding subs by auto
  qed
  have shared: "scd_subscriptions (tables q') = scd_subscriptions (tables q)"
    if "\<exists>r \<in> set (scd_operations (tables q)).
               o_subscription_id r = SubscriptionID old \<and> o_id r \<noteq> i"
  proof -
    from that have "\<not> (\<forall>r \<in> set (scd_operations (tables q')). o_subscription_id r \<noteq> SubscriptionID old)"
      unfolding ops by auto
    then show ?thesis unfolding subs by simp
  qed
  from ops subs iff last shared show ?thesis by blast
qed

text \<open>In the scenario the deletion of \<open>op1\<close> alone removes the implicit Subscription
  \<open>s1\<close>; its deletion beside \<open>op2\<close>, which shares \<open>s1\<close>, leaves \<open>s1\<close>.\<close>

theorem delete_implicit_subscription_witness:
  "DeleteOperation (ex_handle ex_stored 6) ''op1'' ''alice''
     = (Inr (ex_area1, [ex_s1]), ex_handle ex_deleted 6)
   \<and> s_id ex_s1 = SubscriptionID ex_area1 \<and> s_implicit ex_s1 \<and> s_owner ex_s1 = ''alice''
   \<and> ex_s1 \<in> set (scd_subscriptions ex_stored)
   \<and> ex_s1 \<notin> set (scd_subscriptions ex_deleted)
   \<and> DeleteOperation (ex_handle ex_shared 7) ''op1'' ''alice''
     = (Inr (ex_area1, [ex_s1]), ex_handle ex_after_shared 7)
   \<and> ex_row2 \<in> set (scd_operations ex_shared)
   \<and> o_subscription_id ex_row2 = SubscriptionID ex_area1 \<and> o_id ex_row2 \<noteq> ''op1''
   \<and> scd_subscriptions ex_after_shared = scd_subscriptions ex_shared"
proof -
  note last = delete_implicit_subscription [OF run_delete,
      THEN conjunct2, THEN conjunct2, THEN conjunct2, THEN conjunct1, rule_format]
  note shared = delete_implicit_subscription [OF run_delete_shared',
      THEN conjunct2, THEN conjunct2, THEN conjunct2, THEN conjunct2, rule_format]
  have facts: "s_id ex_s1 = SubscriptionID ex_area1" "s_implicit ex_s1" "s_owner ex_s1 = ''alice''"
    "ex_s1 \<in> set (scd_subscriptions ex_stored)"
    "ex_row2 \<in> set (scd_operations ex_shared)"
    "o_subscription_id ex_row2 = SubscriptionID ex_area1" "o_id ex_row2 \<noteq> ''op1''"
    by (simp_all add: ex_simps2 scan_def)
  have only: "\<forall>r \<in> set (scd_operations (tables (ex_handle ex_stored 6))).
      o_subscription_id r = SubscriptionID ex_area1 \<longrightarrow> o_id r = ''op1''"
    by (simp add: ex_stored_def ex_row1_def)
  have gone: "ex_s1 \<notin> set (scd_subscriptions ex_deleted)"
  proof
    assume "ex_s1 \<in> set (scd_subscriptions ex_deleted)"
    then have "ex_s1 \<in> set (scd_subscriptions (tables (ex_handle ex_deleted 6)))" by simp
    from last [OF only [rule_format] this] facts(1-3) show False by simp
  qed
  have other: "\<exists>r \<in> set (scd_operations (tables (ex_handle ex_shared 7))).
      o_subscription_id r = SubscriptionID ex_area1 \<and> o_id r \<noteq> ''op1''"
    using facts(5-7) by (intro bexI [of _ ex_row2]) simp_all
  from shared [OF other]
  have kept: "scd_subscriptions ex_after_shared = scd_subscriptions ex_shared" by simp
  from gone kept facts run_delete run_delete_shared' show ?thesis by simp
qed

subsection \<open>An update conflicts with its own stored version\<close>

text \<open>
  C10. Take an update of a stored Operation to the State Accepted or Activated that
  passes the checks (matching Version, same Owner, valid time range), with a store that
  answers the lookup and the search, and whose new cells, altitudes and times still
  intersect the stored row and its Cell Index rows. Then the conflict search returns
  the stored Operation itself, with the OVN of its last write; and unless the caller
  supplied that OVN, the upsert fails with \<open>ErrMissingOVNs\<close> and writes nothing.
\<close>

theorem own_ovn_required:
  assumes "\<not> next_fails q" and "\<not> next_fails (after_statement q)"
    and "primary_keys (tables q)"
    and "row \<in> set (scd_operations (tables q))" and "o_id row = ID operation"
    and "\<not> Version_Empty (Version operation)"
    and "Version_Matches (Version operation) (o_version row)"
    and "o_owner row = Owner operation"
    and "ValidateTimeRange operation = Inr operation"
    and "State operation = OperationStateAccepted \<or> State operation = OperationStateActivated"
    and "intersects (tables q) (Cells operation) (AltitudeLower operation)
           (AltitudeUpper operation) (StartTime operation) (EndTime operation) row"
  shows "\<exists>found. searchOperations (after_statement q) (conflict_volume operation)
                   = (Inr found, after_statement (after_statement q))
           \<and> scan row \<in> set found
           \<and> OVN (scan row) = NewOVNFromTime (o_updated_at row) (ID operation)
           \<and> (NewOVNFromTime (o_updated_at row) (ID operation) \<notin> set key \<longrightarrow>
                (\<exists>missing. UpsertOperation q operation key
                     = (Inl (ErrMissingOVNs missing), after_statement (after_statement q)))
                \<and> tables (snd (UpsertOperation q operation key)) = tables q)"
proof -
  let ?found = "map scan (filter (intersects (tables q) (Cells operation)
                                        (AltitudeLower operation) (AltitudeUpper operation)
                                        (StartTime operation) (EndTime operation))
                                (scd_operations (tables q)))"
  from assms(11) have ne: "Cells operation \<noteq> []"
    by (auto simp: intersects_iff)
  have search: "searchOperations (after_statement q) (conflict_volume operation)
                   = (Inr ?found, after_statement (after_statement q))"
    using searchOperations_found [of "conflict_volume operation" _ "Cells operation"
        "after_statement q"] ne assms(2)
    by (simp add: conflict_volume_def)
  have mem: "scan row \<in> set ?found" using assms(4,11) by simp
  have ovn: "OVN (scan row) = NewOVNFromTime (o_updated_at row) (ID operation)"
    by (simp add: scan_def assms(5))
  have reach: "(filter (\<lambda>r. o_id r = ID operation) (scd_operations (tables q)) = []
            \<and> Version_Empty (Version operation))
         \<or> (\<exists>row \<in> set (scd_operations (tables q)). o_id row = ID operation
              \<and> \<not> Version_Empty (Version operation)
              \<and> Version_Matches (Version operation) (o_version row)
              \<and> o_owner row = Owner operation)"
    using assms(4-8) by blast
  have d: "distinct (map OVN ?found)" by (rule distinct_found(1) [OF assms(3)])
  have fail: "(\<exists>missing. UpsertOperation q operation key
                     = (Inl (ErrMissingOVNs missing), after_statement (after_statement q)))
                \<and> tables (snd (UpsertOperation q operation key)) = tables q"
    if "NewOVNFromTime (o_updated_at row) (ID operation) \<notin> set key"
  proof -
    from that mem ovn have "scan row \<in> set (filter (\<lambda>op. OVN op \<notin> set key) ?found)"
      by simp
    then obtain op rest where "filter (\<lambda>op. OVN op \<notin> set key) ?found = op # rest"
      by (cases "filter (\<lambda>op. OVN op \<notin> set key) ?found") auto
    then have "match_ovns (set key) ?found = Some (ID op)"
      by (simp add: match_ovns_first [OF d])
    then show ?thesis
      using assms(10)
      by (simp add: UpsertOperation_switch [OF assms(1,3) reach assms(9)] search)
  qed
  from search mem ovn fail show ?thesis by blast
qed

text \<open>In the scenario \<open>alice\<close> updates \<open>op1\<close> over the same cells and supplies no OVN: the
  call fails naming \<open>op1\<close> itself.\<close>

theorem own_ovn_required_witness:
  "\<not> next_fails (ex_handle ex_stored 6) \<and> \<not> next_fails (after_statement (ex_handle ex_stored 6))
   \<and> primary_keys (tables (ex_handle ex_stored 6))
   \<and> ex_row1 \<in> set (scd_operations (tables (ex_handle ex_stored 6)))
   \<and> o_id ex_row1 = ID (ex_op ''op1'' ''alice'' 1 OperationStateAccepted)
   \<and> \<not> Version_Empty 1 \<and> Version_Matches 1 (o_version ex_row1)
   \<and> o_owner ex_row1 = ''alice''
   \<and> ValidateTimeRange (ex_op ''op1'' ''alice'' 1 OperationStateAccepted)
       = Inr (ex_op ''op1'' ''alice'' 1 OperationStateAccepted)
   \<and> intersects ex_stored [10, 11] (Some 0) (Some 100) (Some 100) (Some 200) ex_row1
   \<and> NewOVNFromTime (o_updated_at ex_row1) ''op1'' \<notin> set []
   \<and> (\<exists>missing. UpsertOperation (ex_handle ex_stored 6)
          (ex_op ''op1'' ''alice'' 1 OperationStateAccepted) []
        = (Inl (ErrMissingOVNs missing), ex_handle ex_stored 6))
   \<and> UpsertOperation (ex_handle ex_stored 6)
          (ex_op ''op1'' ''alice'' 1 OperationStateAccepted) []
        = (Inl (ErrMissingOVNs ''op1''), ex_handle ex_stored 6)
   \<and> tables (snd (UpsertOperation (ex_handle ex_stored 6)
          (ex_op ''op1'' ''alice'' 1 OperationStateAccepted) [])) = ex_stored"
proof -
  let ?q = "ex_handle ex_stored 6"
  let ?op = "ex_op ''op1'' ''alice'' 1 OperationStateAccepted"
  have f: "ID ?op = ''op1''" "Version ?op = 1" "State ?op = OperationStateAccepted"
    "Owner ?op = ''alice''" "Cells ?op = [10, 11]" "AltitudeLower ?op = Some 0"
    "AltitudeUpper ?op = Some 100" "StartTime ?op = Some 100" "EndTime ?op = Some 200"
    by (simp_all add: ex_op_def)
  have h: "\<not> next_fails ?q" "\<not> next_fails (after_statement ?q)" by simp_all
  have pk: "primary_keys (tables ?q)" by (simp add: ex_primary_keys)
  have mem: "ex_row1 \<in> set (scd_operations (tables ?q))" by (simp add: ex_stored_def)
  have r: "o_id ex_row1 = ID ?op" "\<not> Version_Empty (Version ?op)"
    "Version_Matches (Version ?op) (o_version ex_row1)" "o_owner ex_row1 = Owner ?op"
    by (simp_all add: f ex_row1_def Version_Empty_def Version_Matches_def)
  have val: "ValidateTimeRange ?op = Inr ?op"
    by (simp add: ValidateTimeRange_def ex_op_def)
  have st: "State ?op = OperationStateAccepted \<or> State ?op = OperationStateActivated"
    by (simp add: f)
  have i: "intersects (tables ?q) (Cells ?op) (AltitudeLower ?op) (AltitudeUpper ?op)
       (StartTime ?op) (EndTime ?op) ex_row1"
    by (simp add: f intersects_def ex_stored_def ex_row1_def)
  from own_ovn_required [OF h pk mem r val st i, of "[]"]
  have "(\<exists>missing. UpsertOperation ?q ?op [] = (Inl (ErrMissingOVNs missing), ?q))
     \<and> tables (snd (UpsertOperation ?q ?op [])) = ex_stored"
    by auto
  with h pk mem r val i run_own_missing show ?thesis
    by (simp add: f)
qed

end
